theory Spec2Isabelle
  imports Complex_Main "HOL-Library.Word"
begin

section \<open>Board bring-up: \<^verbatim>\<open>pios_board.c\<close> of the gpsplatinum bootloader\<close>

text \<open>
  \<^verbatim>\<open>PIOS_Board_Init\<close> and \<^verbatim>\<open>setupCom\<close> call into the PiOS driver layer, which is not
  part of the two source files. The driver layer is therefore a parameter of the model:
  what each driver function returns is a field of \<open>board_drivers\<close>, and every call that
  the bring-up code makes is appended to a log kept in the state, so that "no side effect
  on hardware" is the statement that the log does not grow.
\<close>

type_synonym uint32_t = "32 word"

text \<open>The calls into the driver layer, named as in the source.\<close>

datatype hw_call =
    PIOS_DELAY_Init
  | PIOS_BOARD_HW_DEFS_GetLedCfg nat
  | PIOS_LED_Init nat
  | RCC_AHBPeriphClockCmd
  | PIOS_USART_Init
  | PIOS_COM_MSG_Init uint32_t

text \<open>
  The driver layer as the bring-up code sees it. \<open>include_led\<close> is the preprocessor switch
  \<^verbatim>\<open>PIOS_INCLUDE_LED\<close>; \<open>board_rev\<close> is \<^verbatim>\<open>pios_board_info_blob.board_rev\<close>; \<open>led_cfg_of\<close> is
  the result of \<^verbatim>\<open>PIOS_BOARD_HW_DEFS_GetLedCfg\<close> (\<open>None\<close> for a null pointer, otherwise the
  configuration, identified by a number); \<open>usart_init\<close> is the return code of
  \<^verbatim>\<open>PIOS_USART_Init\<close> together with the identifier it stores through its first argument;
  \<open>com_msg_init\<close> maps the serial identifier to the return code of \<^verbatim>\<open>PIOS_COM_MSG_Init\<close>
  and the identifier it stores into \<^verbatim>\<open>PIOS_COM_TELEM_USB\<close>.
\<close>

record board_drivers =
  include_led :: bool
  board_rev :: nat
  led_cfg_of :: "nat \<Rightarrow> nat option"
  usart_init :: "int \<times> uint32_t"
  com_msg_init :: "uint32_t \<Rightarrow> int \<times> uint32_t"

text \<open>
  The two variables of the file, \<^verbatim>\<open>board_init_complete\<close> and the exported
  \<^verbatim>\<open>PIOS_COM_TELEM_USB\<close>, and the log of driver calls made so far.
\<close>

record board_state =
  board_init_complete :: bool
  PIOS_COM_TELEM_USB :: uint32_t
  hw_log :: "hw_call list"

text \<open>
  Modelled from the spec: the macro \<^verbatim>\<open>PIOS_Assert\<close> is declared in a header that is not
  among the sources. A failed assertion is fatal ("process abort"): the call does not
  return a state.
\<close>

datatype board_error = PIOS_Assert_failed

definition log_call :: "hw_call \<Rightarrow> board_state \<Rightarrow> board_state" where
  "log_call c s = s\<lparr>hw_log := hw_log s @ [c]\<rparr>"

definition setupCom :: "board_drivers \<Rightarrow> board_state \<Rightarrow> board_error + board_state" where
  "setupCom drv s =
     (let (rc_usart, pios_usart_generic_id) = usart_init drv;
          s1 = log_call PIOS_USART_Init s
      in if rc_usart \<noteq> 0 then Inl PIOS_Assert_failed
         else
           let (rc_com, com_id) = com_msg_init drv pios_usart_generic_id;
               s2 = (log_call (PIOS_COM_MSG_Init pios_usart_generic_id) s1)
                      \<lparr>PIOS_COM_TELEM_USB := com_id\<rparr>
           in if rc_com \<noteq> 0 then Inl PIOS_Assert_failed else Inr s2)"

definition led_setup :: "board_drivers \<Rightarrow> board_state \<Rightarrow> board_error + board_state" where
  "led_setup drv s =
     (if include_led drv then
        (let s1 = log_call (PIOS_BOARD_HW_DEFS_GetLedCfg (board_rev drv)) s
         in case led_cfg_of drv (board_rev drv) of
              None \<Rightarrow> Inl PIOS_Assert_failed
            | Some led_cfg \<Rightarrow> Inr (log_call (PIOS_LED_Init led_cfg) s1))
      else Inr s)"

definition PIOS_Board_Init :: "board_drivers \<Rightarrow> board_state \<Rightarrow> board_error + board_state" where
  "PIOS_Board_Init drv s =
     (if board_init_complete s then Inr s
      else
        let s1 = log_call PIOS_DELAY_Init s
        in case led_setup drv s1 of
             Inl e \<Rightarrow> Inl e
           | Inr s2 \<Rightarrow>
               (let s3 = log_call RCC_AHBPeriphClockCmd s2
                in case setupCom drv s3 of
                     Inl e \<Rightarrow> Inl e
                   | Inr s4 \<Rightarrow> Inr (s4\<lparr>board_init_complete := True\<rparr>)))"

text \<open>\<open>n\<close> calls of \<^verbatim>\<open>PIOS_Board_Init\<close> in a row; a fatal failure ends the run.\<close>

fun PIOS_Board_Init_times :: "nat \<Rightarrow> board_drivers \<Rightarrow> board_state \<Rightarrow> board_error + board_state" where
  "PIOS_Board_Init_times 0 drv s = Inr s"
| "PIOS_Board_Init_times (Suc n) drv s =
     (case PIOS_Board_Init drv s of
        Inl e \<Rightarrow> Inl e
      | Inr s' \<Rightarrow> PIOS_Board_Init_times n drv s')"

text \<open>The driver calls of one complete bring-up, in the order of the source.\<close>

definition bringup_calls :: "board_drivers \<Rightarrow> hw_call list" where
  "bringup_calls drv =
     [PIOS_DELAY_Init]
     @ (if include_led drv
        then [PIOS_BOARD_HW_DEFS_GetLedCfg (board_rev drv),
              PIOS_LED_Init (the (led_cfg_of drv (board_rev drv)))]
        else [])
     @ [RCC_AHBPeriphClockCmd, PIOS_USART_Init, PIOS_COM_MSG_Init (snd (usart_init drv))]"

text \<open>The state at process start: static storage is zero-initialised.\<close>

definition boot_state :: board_state where
  "boot_state = \<lparr>board_init_complete = False, PIOS_COM_TELEM_USB = 0, hw_log = []\<rparr>"

text \<open>A driver layer in which every step succeeds, used to exercise the theorems.\<close>

definition good_drivers :: board_drivers where
  "good_drivers =
     \<lparr>include_led = True, board_rev = 1, led_cfg_of = (\<lambda>r. if r = 1 then Some 7 else None),
      usart_init = (0, 5), com_msg_init = (\<lambda>u. (0, u + 1))\<rparr>"


section \<open>The SLAM task: \<^verbatim>\<open>slam.c\<close>\<close>

subsection \<open>Floating point and conversions\<close>

text \<open>
  The values of the C types \<^verbatim>\<open>float\<close> and \<^verbatim>\<open>double\<close> are modelled as real numbers
  (no infinity, no NaN). An arithmetic operation of the source is the exact operation on
  the reals followed by the rounding of its result type, and the rounding is a parameter:
  \<open>to_float\<close> rounds to \<^verbatim>\<open>float\<close>, \<open>to_double\<close> rounds to \<^verbatim>\<open>double\<close>. The library functions
  \<^verbatim>\<open>cos\<close> and \<^verbatim>\<open>sin\<close> of \<^verbatim>\<open>math.h\<close> are the parameters \<open>cos_d\<close> and \<open>sin_d\<close>.
  The macro \<^verbatim>\<open>portTICK_RATE_MS\<close> (milliseconds per scheduler tick, of type
  \<^verbatim>\<open>portTickType\<close>) comes from the port layer of the scheduler, which is not among the
  sources, and is a parameter as well.
\<close>

text \<open>
  Modelled from the spec: the type \<^verbatim>\<open>portTickType\<close> of scheduler ticks is declared by the
  port layer of the scheduler, which is not among the sources. Ticks are taken as unsigned
  32-bit values, as the frame counter \<^verbatim>\<open>uint32_t frame\<close> with which they are multiplied.
\<close>

type_synonym portTickType = "32 word"

record platform =
  to_float :: "real \<Rightarrow> real"
  to_double :: "real \<Rightarrow> real"
  cos_d :: "real \<Rightarrow> real"
  sin_d :: "real \<Rightarrow> real"
  portTICK_RATE_MS :: portTickType

text \<open>
  Conversion of a floating value to an integer type discards the fractional part
  (truncation toward zero); the behaviour is undefined when the truncated value is not
  in the range of the target type, which the model reports as \<open>None\<close>.
\<close>

definition c_trunc :: "real \<Rightarrow> int" where
  "c_trunc v = (if 0 \<le> v then \<lfloor>v\<rfloor> else \<lceil>v\<rceil>)"

definition double_to_int :: "real \<Rightarrow> int option" where
  "double_to_int v = (if - (2 ^ 31) - 1 < v \<and> v < 2 ^ 31 then Some (c_trunc v) else None)"

definition float_to_uint32 :: "real \<Rightarrow> uint32_t option" where
  "float_to_uint32 v = (if - 1 < v \<and> v < 2 ^ 32 then Some (word_of_int (c_trunc v)) else None)"

text \<open>Addition and subtraction of \<^verbatim>\<open>int\<close>: signed overflow is undefined.\<close>

definition in_int_range :: "int \<Rightarrow> bool" where
  "in_int_range i \<longleftrightarrow> - (2 ^ 31) \<le> i \<and> i < 2 ^ 31"

definition int_add :: "int \<Rightarrow> int \<Rightarrow> int option" where
  "int_add a b = (if in_int_range (a + b) then Some (a + b) else None)"

definition int_sub :: "int \<Rightarrow> int \<Rightarrow> int option" where
  "int_sub a b = (if in_int_range (a - b) then Some (a - b) else None)"

subsection \<open>Data\<close>

text \<open>
  Modelled from the spec: \<^verbatim>\<open>SLAMSettingsData\<close> and \<^verbatim>\<open>AttitudeActualData\<close> are declared in
  generated headers (\<^verbatim>\<open>slamsettings.h\<close>, \<^verbatim>\<open>attitudeactual.h\<close>) that are not among the
  sources. The settings are the frame rate and the two frame dimensions
  (\<^verbatim>\<open>FrameDimensions[SLAMSETTINGS_FRAMEDIMENSIONS_X]\<close> and \<^verbatim>\<open>..._Y\<close>); the spec gives
  no types for them, and they are taken as unsigned 16-bit fields, which the source's
  floating literals \<^verbatim>\<open>1000.\<close> and \<^verbatim>\<open>60.\<close> suggest to be integers. The orientation sample
  has roll, pitch and yaw in degrees, of type \<^verbatim>\<open>float\<close>.
\<close>

record SLAMSettingsData =
  FrameRate :: "16 word"
  FrameDimensions_X :: "16 word"
  FrameDimensions_Y :: "16 word"

record AttitudeActualData =
  Roll :: real
  Pitch :: real
  Yaw :: real

text \<open>\<^verbatim>\<open>CvPoint\<close> has two \<^verbatim>\<open>int\<close> coordinates, \<open>x\<close> first.\<close>

type_synonym CvPoint = "int \<times> int"

text \<open>An image is identified by its content; a null \<^verbatim>\<open>IplImage*\<close> is \<open>None\<close>.\<close>

type_synonym image = nat

datatype cap_prop = CV_CAP_PROP_FRAME_WIDTH | CV_CAP_PROP_FRAME_HEIGHT

text \<open>\<^verbatim>\<open>struct opencvslam_input\<close>, of which the source sets the member \<open>x\<close>.\<close>

record opencvslam_input =
  input_x :: int

text \<open>The calls that the task makes to its collaborators, named as in the source.\<close>

datatype call =
    cvCaptureFromFile
  | cvGrabFrame
  | cvRetrieveFrame
  | cvSetCaptureProperty cap_prop nat
  | cvCloneImage image
  | cvNamedWindow
  | PIOS_DELAY_GetRaw
  | xTaskGetTickCount
  | fprintf_init uint32_t portTickType
  | AttitudeActualGet
  | AttitudeActualSet AttitudeActualData
  | cvWaitKey
  | vTaskDelayUntil portTickType portTickType
  | PIOS_DELAY_DiffuS uint32_t
  | backgroundGrabFrame
  | PositionActualGet
  | VelocityActualGet
  | opencvslam_run opencvslam_input
  | cvReleaseImage image
  | cvLine image CvPoint CvPoint
  | cvShowImage image
  | fprintf_frame uint32_t portTickType

text \<open>
  The state of the task: the file-scope variable \<open>settings\<close>, the shared orientation
  object behind \<^verbatim>\<open>AttitudeActualGet\<close> and \<^verbatim>\<open>AttitudeActualSet\<close>, the local variables of
  \<^verbatim>\<open>slamTask\<close>, and the calls made so far.
\<close>

record task_state =
  settings :: SLAMSettingsData
  AttitudeActual_object :: AttitudeActualData
  VideoSource :: "nat option"
  currentFrame :: "image option"
  lastFrame :: "image option"
  frame :: uint32_t
  timeval :: uint32_t
  currentTime :: portTickType
  startTime :: portTickType
  increment :: portTickType
  attitudeActual :: AttitudeActualData
  calls :: "call list"

datatype task_error = Undefined_conversion

definition record_call :: "call \<Rightarrow> task_state \<Rightarrow> task_state" where
  "record_call c s = s\<lparr>calls := calls s @ [c]\<rparr>"

subsection \<open>The tick increment\<close>

text \<open>
  \<^verbatim>\<open>portTickType increment = ((float)(1000./settings.FrameRate)) / portTICK_RATE_MS;\<close>
  The quotient \<^verbatim>\<open>1000./FrameRate\<close> is a \<^verbatim>\<open>double\<close>, converted to \<^verbatim>\<open>float\<close>, divided as a
  \<^verbatim>\<open>float\<close> by the tick period, and converted to the tick type. A zero divisor gives an
  infinity, whose conversion to an integer is undefined.
\<close>

definition tick_increment :: "platform \<Rightarrow> SLAMSettingsData \<Rightarrow> portTickType option" where
  "tick_increment pf st =
     (if FrameRate st = 0 \<or> portTICK_RATE_MS pf = 0 then None
      else float_to_uint32
             (to_float pf
                (to_float pf (to_double pf (1000 / real (unat (FrameRate st))))
                 / to_float pf (real (unat (portTICK_RATE_MS pf))))))"

subsection \<open>The horizon overlay\<close>

text \<open>\<^verbatim>\<open>#define DEG2RAD (3.1415926535897932/180.0)\<close>, evaluated in \<^verbatim>\<open>double\<close>.\<close>

definition DEG2RAD :: "platform \<Rightarrow> real" where
  "DEG2RAD pf = to_double pf (to_double pf (31415926535897932 / 10 ^ 16) / 180)"

text \<open>
  The centre: \<^verbatim>\<open>cvPoint(X/2, Y/2 + Pitch * Y/60.)\<close>. \<open>X/2\<close> and \<open>Y/2\<close> are integer
  divisions; \<open>Pitch * Y\<close> is a \<^verbatim>\<open>float\<close> product, divided by \<open>60.\<close> as a \<^verbatim>\<open>double\<close>, and the
  sum is a \<^verbatim>\<open>double\<close>. \<^verbatim>\<open>cvPoint\<close> takes two \<^verbatim>\<open>int\<close> arguments, so the sum is converted.
\<close>

definition horizon_center :: "platform \<Rightarrow> SLAMSettingsData \<Rightarrow> AttitudeActualData \<Rightarrow> CvPoint option" where
  "horizon_center pf st att =
     (let X = unat (FrameDimensions_X st); Y = unat (FrameDimensions_Y st)
      in case double_to_int
                (to_double pf (real (Y div 2)
                   + to_double pf (to_float pf (Pitch att * real Y) / 60))) of
           None \<Rightarrow> None
         | Some cy \<Rightarrow> Some (int (X div 2), cy))"

text \<open>
  The point \<open>right\<close> as first computed, before the centre is added:
  \<^verbatim>\<open>cvPoint(fmin(X,Y)*cos(DEG2RAD*Roll)/3, -fmin(X,Y)*sin(DEG2RAD*Roll)/3)\<close>.
\<close>

definition horizon_offset :: "platform \<Rightarrow> SLAMSettingsData \<Rightarrow> AttitudeActualData \<Rightarrow> CvPoint option" where
  "horizon_offset pf st att =
     (let m = real (min (unat (FrameDimensions_X st)) (unat (FrameDimensions_Y st)));
          angle = to_double pf (DEG2RAD pf * Roll att)
      in case double_to_int (to_double pf (to_double pf (m * cos_d pf angle) / 3)) of
           None \<Rightarrow> None
         | Some rx \<Rightarrow>
             (case double_to_int (to_double pf (to_double pf (- m * sin_d pf angle) / 3)) of
                None \<Rightarrow> None
              | Some ry \<Rightarrow> Some (rx, ry)))"

text \<open>
  \<^verbatim>\<open>left = cvPoint(center.x-right.x, center.y-right.y); right.x += center.x;
  right.y += center.y;\<close> The result is the pair (left, right) passed to \<^verbatim>\<open>cvLine\<close>.
\<close>

definition horizon_ends :: "CvPoint \<Rightarrow> CvPoint \<Rightarrow> (CvPoint \<times> CvPoint) option" where
  "horizon_ends center right =
     (case (int_sub (fst center) (fst right), int_sub (snd center) (snd right),
            int_add (fst right) (fst center), int_add (snd right) (snd center)) of
        (Some lx, Some ly, Some rx, Some ry) \<Rightarrow> Some ((lx, ly), (rx, ry))
      | _ \<Rightarrow> None)"

definition horizon_line :: "platform \<Rightarrow> SLAMSettingsData \<Rightarrow> AttitudeActualData \<Rightarrow> (CvPoint \<times> CvPoint) option" where
  "horizon_line pf st att =
     (case horizon_center pf st att of
        None \<Rightarrow> None
      | Some center \<Rightarrow>
          (case horizon_offset pf st att of
             None \<Rightarrow> None
           | Some right \<Rightarrow> horizon_ends center right))"


subsection \<open>The settings callback\<close>

text \<open>
  \<^verbatim>\<open>SettingsUpdatedCb\<close> copies the settings object into the file-scope variable
  \<open>settings\<close>; the argument is the content of the object at the time of the call.
\<close>

definition SettingsUpdatedCb :: "SLAMSettingsData \<Rightarrow> task_state \<Rightarrow> task_state" where
  "SettingsUpdatedCb object s = s\<lparr>settings := object\<rparr>"

subsection \<open>Start of the task\<close>

text \<open>
  What the collaborators return while the task starts: the handle of
  \<^verbatim>\<open>cvCaptureFromFile\<close> (\<open>None\<close> for a null pointer), the image of the first
  \<^verbatim>\<open>cvRetrieveFrame\<close>, the raw timer value and the tick count.
\<close>

record start_env =
  video_open :: "nat option"
  first_frame :: "image option"
  first_raw :: uint32_t
  first_tick :: portTickType

text \<open>The state on entry of \<^verbatim>\<open>slamTask\<close>, from the settings and the orientation object.\<close>

definition task_entry :: "SLAMSettingsData \<Rightarrow> AttitudeActualData \<Rightarrow> task_state" where
  "task_entry st object =
     \<lparr>settings = st, AttitudeActual_object = object, VideoSource = None,
      currentFrame = None, lastFrame = None, frame = 0, timeval = 0, currentTime = 0,
      startTime = 0, increment = 0, attitudeActual = object, calls = []\<rparr>"

text \<open>Opening and priming the video source, and the first clone.\<close>

definition open_video :: "start_env \<Rightarrow> task_state \<Rightarrow> task_state" where
  "open_video env s =
     (let s1 = (record_call cvCaptureFromFile s)\<lparr>VideoSource := video_open env\<rparr>;
          s2 = (if VideoSource s1 \<noteq> None then
                  (let t1 = record_call cvGrabFrame s1;
                       t2 = (record_call cvRetrieveFrame t1)\<lparr>currentFrame := first_frame env\<rparr>;
                       t3 = record_call (cvSetCaptureProperty CV_CAP_PROP_FRAME_WIDTH
                              (unat (FrameDimensions_X (settings t2)))) t2
                   in record_call (cvSetCaptureProperty CV_CAP_PROP_FRAME_HEIGHT
                              (unat (FrameDimensions_Y (settings t3)))) t3)
                else s1);
          s3 = (case currentFrame s2 of
                  None \<Rightarrow> s2
                | Some c \<Rightarrow> (record_call (cvCloneImage c) s2)\<lparr>lastFrame := Some c\<rparr>)
      in record_call cvNamedWindow s3)"

text \<open>The start time and the tick increment, computed once.\<close>

definition init_timing :: "platform \<Rightarrow> start_env \<Rightarrow> task_state \<Rightarrow> task_error + task_state" where
  "init_timing pf env s =
     (let s1 = (record_call PIOS_DELAY_GetRaw s)\<lparr>timeval := first_raw env\<rparr>;
          s2 = (record_call xTaskGetTickCount s1)\<lparr>startTime := first_tick env\<rparr>
      in case tick_increment pf (settings s2) of
           None \<Rightarrow> Inl Undefined_conversion
         | Some inc \<Rightarrow>
             Inr (record_call (fprintf_init (timeval s2) inc) (s2\<lparr>increment := inc\<rparr>)))"

text \<open>
  Reading the orientation object. Between two reads an external writer may have stored
  a new sample (\<open>Some v\<close>) or not (\<open>None\<close>); the read returns what is stored.
\<close>

definition get_attitude :: "AttitudeActualData option \<Rightarrow> task_state \<Rightarrow> task_state" where
  "get_attitude written s =
     (let object = (case written of None \<Rightarrow> AttitudeActual_object s | Some v \<Rightarrow> v)
      in (record_call AttitudeActualGet s)
           \<lparr>AttitudeActual_object := object, attitudeActual := object\<rparr>)"

text \<open>
  The first three statements of the handshake: read the sample, set its pitch to 100,
  write it back.
\<close>

definition handshake_mark :: "task_state \<Rightarrow> task_state" where
  "handshake_mark s =
     (let s1 = get_attitude None s;
          s2 = s1\<lparr>attitudeActual := (attitudeActual s1)\<lparr>Pitch := 100\<rparr>\<rparr>
      in (record_call (AttitudeActualSet (attitudeActual s2)) s2)
           \<lparr>AttitudeActual_object := attitudeActual s2\<rparr>)"

text \<open>
  \<^verbatim>\<open>while (attitudeActual.Pitch==100) AttitudeActualGet(&attitudeActual);\<close>
  The loop has no bound; \<open>writes k\<close> is what the external writer stores before the read
  number \<open>k\<close>. The result \<open>None\<close> means that the loop does not end.
\<close>

partial_function (option) handshake_wait ::
  "(nat \<Rightarrow> AttitudeActualData option) \<Rightarrow> nat \<Rightarrow> task_state \<Rightarrow> task_state option" where
  "handshake_wait writes k s =
     (if Pitch (attitudeActual s) = 100
      then handshake_wait writes (Suc k) (get_attitude (writes k) s)
      else Some s)"

subsection \<open>The main loop\<close>

text \<open>
  What the collaborators supply during one pass of the loop: the sample stored by the
  external writer since the last read (if any), the value that \<^verbatim>\<open>vTaskDelayUntil\<close>
  leaves in \<^verbatim>\<open>currentTime\<close>, the raw timer value, and the image of \<^verbatim>\<open>cvRetrieveFrame\<close>.
  The time that a pass takes shows in \<open>woke_at\<close> and \<open>raw_time\<close>.
\<close>

record pass_env =
  attitude_written :: "AttitudeActualData option"
  woke_at :: portTickType
  raw_time :: uint32_t
  retrieved :: "image option"

definition loop_delay :: "pass_env \<Rightarrow> task_state \<Rightarrow> task_state" where
  "loop_delay env s =
     (let s1 = s\<lparr>frame := frame s + 1\<rparr>;
          s2 = record_call cvWaitKey s1;
          s3 = s2\<lparr>currentTime := startTime s2\<rparr>;
          s4 = record_call
                 (vTaskDelayUntil (currentTime s3) (startTime s3 + frame s3 * increment s3)) s3
      in s4\<lparr>currentTime := woke_at env\<rparr>)"

definition loop_sample :: "pass_env \<Rightarrow> task_state \<Rightarrow> task_state" where
  "loop_sample env s =
     (let s1 = record_call (PIOS_DELAY_DiffuS (timeval s)) s
      in (record_call PIOS_DELAY_GetRaw s1)\<lparr>timeval := raw_time env\<rparr>)"

definition loop_acquire :: "pass_env \<Rightarrow> task_state \<Rightarrow> task_state" where
  "loop_acquire env s =
     (let s1 = (if VideoSource s \<noteq> None then record_call backgroundGrabFrame s else s);
          s2 = get_attitude (attitude_written env) s1;
          s3 = record_call PositionActualGet s2;
          s4 = record_call VelocityActualGet s3
      in if VideoSource s4 \<noteq> None
         then (record_call cvRetrieveFrame s4)\<lparr>currentFrame := retrieved env\<rparr>
         else s4)"

definition loop_fusion :: "task_state \<Rightarrow> task_state" where
  "loop_fusion s =
     (let s1 = record_call (opencvslam_run \<lparr>input_x = 0\<rparr>) s
      in case lastFrame s1 of
           None \<Rightarrow> s1
         | Some l \<Rightarrow> (record_call (cvReleaseImage l) s1)\<lparr>lastFrame := None\<rparr>)"

definition loop_overlay :: "platform \<Rightarrow> task_state \<Rightarrow> task_error + task_state" where
  "loop_overlay pf s =
     (case currentFrame s of
        None \<Rightarrow> Inr s
      | Some c \<Rightarrow>
          (let s1 = (record_call (cvCloneImage c) s)\<lparr>lastFrame := Some c\<rparr>
           in case horizon_line pf (settings s1) (attitudeActual s1) of
                None \<Rightarrow> Inl Undefined_conversion
              | Some (left, right) \<Rightarrow>
                  Inr (record_call (cvShowImage c) (record_call (cvLine c left right) s1))))"

definition loop_body :: "platform \<Rightarrow> pass_env \<Rightarrow> task_state \<Rightarrow> task_error + task_state" where
  "loop_body pf env s =
     (case loop_overlay pf (loop_fusion (loop_acquire env (loop_sample env (loop_delay env s)))) of
        Inl e \<Rightarrow> Inl e
      | Inr s' \<Rightarrow> Inr (record_call (fprintf_frame (frame s') (currentTime s')) s'))"

text \<open>
  \<^verbatim>\<open>while (1)\<close> has no exit. A run of the loop is described by what happens to the task,
  in order: a pass of the loop, or a settings-change notification, which runs the
  callback between two passes. \<open>main_loop\<close> gives the state after such a finite run.
\<close>

datatype happening = Pass pass_env | Settings_changed SLAMSettingsData

fun main_loop :: "platform \<Rightarrow> happening list \<Rightarrow> task_state \<Rightarrow> task_error + task_state" where
  "main_loop pf [] s = Inr s"
| "main_loop pf (Pass env # hs) s =
     (case loop_body pf env s of
        Inl e \<Rightarrow> Inl e
      | Inr s' \<Rightarrow> main_loop pf hs s')"
| "main_loop pf (Settings_changed object # hs) s = main_loop pf hs (SettingsUpdatedCb object s)"

text \<open>
  The whole task, up to the end of a finite run of the main loop. \<open>None\<close>: the handshake
  never ends. \<open>Some (Inl e)\<close>: undefined behaviour. \<open>Some (Inr s)\<close>: the state reached.
\<close>

definition slamTask ::
  "platform \<Rightarrow> start_env \<Rightarrow> (nat \<Rightarrow> AttitudeActualData option) \<Rightarrow> happening list
     \<Rightarrow> SLAMSettingsData \<Rightarrow> AttitudeActualData \<Rightarrow> (task_error + task_state) option" where
  "slamTask pf env writes hs st object =
     (case init_timing pf env (open_video env (task_entry st object)) of
        Inl e \<Rightarrow> Some (Inl e)
      | Inr s \<Rightarrow>
          (case handshake_wait writes 0 (handshake_mark s) of
             None \<Rightarrow> None
           | Some s' \<Rightarrow> Some (main_loop pf hs s')))"

subsection \<open>Reading the log of calls\<close>

text \<open>The second argument of each \<^verbatim>\<open>vTaskDelayUntil\<close> call, in order.\<close>

fun wake_tick :: "call \<Rightarrow> portTickType option" where
  "wake_tick (vTaskDelayUntil previous target) = Some target"
| "wake_tick _ = None"

definition wake_ticks :: "call list \<Rightarrow> portTickType list" where
  "wake_ticks cs = List.map_filter wake_tick cs"

text \<open>
  Both arguments of each \<^verbatim>\<open>vTaskDelayUntil\<close> call, in order: the value that
  \<^verbatim>\<open>*pxPreviousWakeTime\<close> has on entry (the first argument points to \<^verbatim>\<open>currentTime\<close>),
  and the second argument.
\<close>

fun delay_request :: "call \<Rightarrow> (portTickType \<times> portTickType) option" where
  "delay_request (vTaskDelayUntil previous arg) = Some (previous, arg)"
| "delay_request _ = None"

definition delay_requests :: "call list \<Rightarrow> (portTickType \<times> portTickType) list" where
  "delay_requests cs = List.map_filter delay_request cs"

text \<open>
  The scheduler is not among the sources. Its interface declares
  \<^verbatim>\<open>vTaskDelayUntil (pxPreviousWakeTime, xTimeIncrement)\<close> and documents the second
  argument as a period, counted from the tick stored in \<^verbatim>\<open>*pxPreviousWakeTime\<close>: the task
  is released at the tick \<^verbatim>\<open>*pxPreviousWakeTime + xTimeIncrement\<close>, in tick arithmetic.
  \<open>release_tick\<close> is that tick, for a request as read from the log.
\<close>

definition release_tick :: "portTickType \<times> portTickType \<Rightarrow> portTickType" where
  "release_tick r = fst r + snd r"

text \<open>The inputs given to \<^verbatim>\<open>opencvslam_run\<close>, in order.\<close>

fun fusion_input :: "call \<Rightarrow> opencvslam_input option" where
  "fusion_input (opencvslam_run i) = Some i"
| "fusion_input _ = None"

definition fusion_inputs :: "call list \<Rightarrow> opencvslam_input list" where
  "fusion_inputs cs = List.map_filter fusion_input cs"

text \<open>The end points (left, right) of the lines drawn with \<^verbatim>\<open>cvLine\<close>, in order.\<close>

fun drawn_line :: "call \<Rightarrow> (CvPoint \<times> CvPoint) option" where
  "drawn_line (cvLine c left right) = Some (left, right)"
| "drawn_line _ = None"

definition drawn_lines :: "call list \<Rightarrow> (CvPoint \<times> CvPoint) list" where
  "drawn_lines cs = List.map_filter drawn_line cs"

text \<open>The properties set with \<^verbatim>\<open>cvSetCaptureProperty\<close>, in order.\<close>

fun capture_property :: "call \<Rightarrow> (cap_prop \<times> nat) option" where
  "capture_property (cvSetCaptureProperty p v) = Some (p, v)"
| "capture_property _ = None"

definition capture_properties :: "call list \<Rightarrow> (cap_prop \<times> nat) list" where
  "capture_properties cs = List.map_filter capture_property cs"

text \<open>The calls that acquire or retrieve a frame, draw the overlay or show an image.\<close>

fun acquires_or_displays :: "call \<Rightarrow> bool" where
  "acquires_or_displays cvGrabFrame = True"
| "acquires_or_displays backgroundGrabFrame = True"
| "acquires_or_displays cvRetrieveFrame = True"
| "acquires_or_displays (cvCloneImage c) = True"
| "acquires_or_displays (cvLine c left right) = True"
| "acquires_or_displays (cvShowImage c) = True"
| "acquires_or_displays _ = False"

subsection \<open>Reading a run\<close>

text \<open>The number of passes in a run.\<close>

fun is_pass :: "happening \<Rightarrow> bool" where
  "is_pass (Pass env) = True"
| "is_pass (Settings_changed object) = False"

definition passes :: "happening list \<Rightarrow> nat" where
  "passes hs = length (filter is_pass hs)"

text \<open>The settings left by the notifications of a run, from the settings before it.\<close>

fun settings_after :: "happening list \<Rightarrow> SLAMSettingsData \<Rightarrow> SLAMSettingsData" where
  "settings_after [] st = st"
| "settings_after (Pass env # hs) st = settings_after hs st"
| "settings_after (Settings_changed object # hs) st = settings_after hs object"

text \<open>Degraded mode: no video source and no frame.\<close>

definition degraded :: "task_state \<Rightarrow> bool" where
  "degraded s \<longleftrightarrow> VideoSource s = None \<and> currentFrame s = None \<and> lastFrame s = None"

subsection \<open>What is assumed of the floating point of a platform\<close>

text \<open>
  What the theorems assume of a rounding function with unit roundoff \<open>u\<close>: it is
  monotone, it leaves the integers up to \<open>2 ^ 23\<close> in magnitude unchanged, and on values
  up to \<open>2 ^ 100\<close> in magnitude its error is at most \<open>u\<close> times the magnitude, plus an
  absolute term for results near zero. Rounding to nearest in the binary formats of 24
  and of 53 significant bits has these properties, with \<open>u = 2\<^sup>-\<^sup>2\<^sup>4\<close> and \<open>u = 2\<^sup>-\<^sup>5\<^sup>3\<close>.
\<close>

definition rounding :: "real \<Rightarrow> (real \<Rightarrow> real) \<Rightarrow> bool" where
  "rounding u rnd \<longleftrightarrow>
     (\<forall>v w. v \<le> w \<longrightarrow> rnd v \<le> rnd w)
   \<and> (\<forall>i::int. \<bar>i\<bar> \<le> 2 ^ 23 \<longrightarrow> rnd (real_of_int i) = real_of_int i)
   \<and> (\<forall>v. \<bar>v\<bar> \<le> 2 ^ 100 \<longrightarrow> \<bar>rnd v - v\<bar> \<le> u * \<bar>v\<bar> + u / 2 ^ 100)"

text \<open>
  A platform whose \<^verbatim>\<open>float\<close> and \<^verbatim>\<open>double\<close> round in this way, and whose \<^verbatim>\<open>cos\<close> and
  \<^verbatim>\<open>sin\<close> are within \<open>2\<^sup>-\<^sup>3\<^sup>0\<close> of the true values on arguments up to 8 in magnitude
  and are exact at 0.
\<close>

definition ieee_like :: "platform \<Rightarrow> bool" where
  "ieee_like pf \<longleftrightarrow>
     rounding (1 / 2 ^ 24) (to_float pf)
   \<and> rounding (1 / 2 ^ 53) (to_double pf)
   \<and> (\<forall>v. \<bar>v\<bar> \<le> 8 \<longrightarrow> \<bar>cos_d pf v - cos v\<bar> \<le> 1 / 2 ^ 30)
   \<and> (\<forall>v. \<bar>v\<bar> \<le> 8 \<longrightarrow> \<bar>sin_d pf v - sin v\<bar> \<le> 1 / 2 ^ 30)
   \<and> cos_d pf 0 = 1 \<and> sin_d pf 0 = 0"

subsection \<open>A platform with binary rounding\<close>

text \<open>
  Rounding to the nearest integer, a tie going to the even neighbour.
\<close>

definition round_even :: "real \<Rightarrow> int" where
  "round_even x =
     (let f = \<lfloor>x\<rfloor>
      in if x - real_of_int f < 1 / 2 then f
         else if 1 / 2 < x - real_of_int f then f + 1
         else if even f then f else f + 1)"

text \<open>
  The binade of a non-zero value \<open>v\<close>: the integer \<open>k\<close> with \<open>2\<^sup>k \<le> \<bar>v\<bar> < 2\<^sup>k\<^sup>+\<^sup>1\<close>.
\<close>

definition binade :: "real \<Rightarrow> int" where
  "binade v = \<lfloor>log 2 \<bar>v\<bar>\<rfloor>"

text \<open>
  Rounding to \<open>p\<close> significant binary digits: the value is scaled so that its magnitude
  lies between \<open>2\<^sup>p\<^sup>-\<^sup>1\<close> and \<open>2\<^sup>p\<close>, rounded to an integer, and scaled back. The
  exponent is not bounded: there is no overflow and there are no subnormal numbers.
\<close>

definition round_to :: "nat \<Rightarrow> real \<Rightarrow> real" where
  "round_to p v =
     (if v = 0 then 0
      else let s = 2 powr real_of_int (binade v - int p + 1)
           in real_of_int (round_even (v / s)) * s)"

text \<open>
  A platform whose \<^verbatim>\<open>float\<close> has 24 and whose \<^verbatim>\<open>double\<close> has 53 significant
  digits, whose \<^verbatim>\<open>cos\<close> and \<^verbatim>\<open>sin\<close> return the rounded true value, and whose tick
  period is 1 ms.
\<close>

definition binary_platform :: platform where
  "binary_platform =
     \<lparr>to_float = round_to 24, to_double = round_to 53,
      cos_d = (\<lambda>v. round_to 53 (cos v)), sin_d = (\<lambda>v. round_to 53 (sin v)),
      portTICK_RATE_MS = 1\<rparr>"

subsection \<open>Sample inputs\<close>

text \<open>
  Orientation samples: level flight, a pitch of one sixteenth of a degree, a pitch of
  \<open>-481/16\<close> degrees, a roll of 90 degrees.
\<close>

definition level :: AttitudeActualData where
  "level = \<lparr>Roll = 0, Pitch = 0, Yaw = 0\<rparr>"

definition nose_up :: AttitudeActualData where
  "nose_up = \<lparr>Roll = 0, Pitch = 1 / 16, Yaw = 0\<rparr>"

definition on_edge :: AttitudeActualData where
  "on_edge = \<lparr>Roll = 90, Pitch = 0, Yaw = 0\<rparr>"

definition nose_down :: AttitudeActualData where
  "nose_down = \<lparr>Roll = 0, Pitch = - (481 / 16), Yaw = 0\<rparr>"

text \<open>Settings: 640 by 480, 320 by 240 and 100 by 100 pixels, at 30 frames per second.\<close>

definition vga30 :: SLAMSettingsData where
  "vga30 = \<lparr>FrameRate = 30, FrameDimensions_X = 640, FrameDimensions_Y = 480\<rparr>"

definition qvga30 :: SLAMSettingsData where
  "qvga30 = \<lparr>FrameRate = 30, FrameDimensions_X = 320, FrameDimensions_Y = 240\<rparr>"

definition square100 :: SLAMSettingsData where
  "square100 = \<lparr>FrameRate = 30, FrameDimensions_X = 100, FrameDimensions_Y = 100\<rparr>"

text \<open>
  A start at which the video source cannot be opened, and one at which it opens and
  delivers a first frame; in both the tick count at the start is 100.
\<close>

definition no_video :: start_env where
  "no_video = \<lparr>video_open = None, first_frame = None, first_raw = 0, first_tick = 100\<rparr>"

definition camera :: start_env where
  "camera = \<lparr>video_open = Some 1, first_frame = Some 0, first_raw = 0, first_tick = 100\<rparr>"

text \<open>
  An external writer of the orientation object that stores nothing, and one that stores
  a level sample before the third read of the polling loop (read number 2) and nothing
  before the others.
\<close>

definition no_writer :: "nat \<Rightarrow> AttitudeActualData option" where
  "no_writer k = None"

definition late_writer :: "nat \<Rightarrow> AttitudeActualData option" where
  "late_writer k = (if k = 2 then Some level else None)"

text \<open>A pass that takes long: the task wakes late, at tick 500.\<close>

definition slow_pass :: pass_env where
  "slow_pass = \<lparr>attitude_written = None, woke_at = 500, raw_time = 9000, retrieved = None\<rparr>"

text \<open>A pass in which no frame is retrieved, and one in which a frame is.\<close>

definition quiet_pass :: pass_env where
  "quiet_pass = \<lparr>attitude_written = None, woke_at = 0, raw_time = 0, retrieved = None\<rparr>"

definition frame_pass :: pass_env where
  "frame_pass = \<lparr>attitude_written = None, woke_at = 0, raw_time = 0, retrieved = Some 7\<rparr>"

text \<open>Two states of a running loop, without and with a video source.\<close>

definition idle_state :: task_state where
  "idle_state = (task_entry vga30 level)\<lparr>startTime := 100, increment := 33\<rparr>"

definition streaming_state :: task_state where
  "streaming_state =
     (task_entry vga30 level)\<lparr>VideoSource := Some 1, startTime := 100, increment := 33\<rparr>"


section \<open>Theorems about the board bring-up\<close>

lemma PIOS_Board_Init_done:
  "board_init_complete s \<Longrightarrow> PIOS_Board_Init drv s = Inr s"
  by (simp add: PIOS_Board_Init_def)

lemma PIOS_Board_Init_times_done:
  "board_init_complete s \<Longrightarrow> PIOS_Board_Init_times n drv s = Inr s"
  by (induction n) (simp_all add: PIOS_Board_Init_done)

lemma led_setup_log:
  "led_setup drv s = Inr s' \<Longrightarrow>
   hw_log s' = hw_log s @ (if include_led drv
        then [PIOS_BOARD_HW_DEFS_GetLedCfg (board_rev drv),
              PIOS_LED_Init (the (led_cfg_of drv (board_rev drv)))]
        else []) \<and>
   board_init_complete s' = board_init_complete s \<and>
   PIOS_COM_TELEM_USB s' = PIOS_COM_TELEM_USB s"
  by (auto simp: led_setup_def log_call_def Let_def split: if_splits option.splits)

lemma setupCom_log:
  "setupCom drv s = Inr s' \<Longrightarrow>
   hw_log s' = hw_log s @ [PIOS_USART_Init, PIOS_COM_MSG_Init (snd (usart_init drv))] \<and>
   board_init_complete s' = board_init_complete s \<and>
   PIOS_COM_TELEM_USB s' = snd (com_msg_init drv (snd (usart_init drv)))"
  by (auto simp: setupCom_def log_call_def Let_def split: if_splits prod.splits)

lemma PIOS_Board_Init_first:
  assumes "\<not> board_init_complete s" and "PIOS_Board_Init drv s = Inr s'"
  shows "board_init_complete s'"
    and "hw_log s' = hw_log s @ bringup_calls drv"
    and "PIOS_COM_TELEM_USB s' = snd (com_msg_init drv (snd (usart_init drv)))"
proof -
  from assms obtain s2 s4 where
    led: "led_setup drv (log_call PIOS_DELAY_Init s) = Inr s2" and
    com: "setupCom drv (log_call RCC_AHBPeriphClockCmd s2) = Inr s4" and
    s': "s' = s4\<lparr>board_init_complete := True\<rparr>"
    by (auto simp: PIOS_Board_Init_def Let_def split: sum.splits)
  show "board_init_complete s'" by (simp add: s')
  show "hw_log s' = hw_log s @ bringup_calls drv"
    using led_setup_log [OF led] setupCom_log [OF com]
    by (simp add: s' log_call_def bringup_calls_def)
  show "PIOS_COM_TELEM_USB s' = snd (com_msg_init drv (snd (usart_init drv)))"
    using setupCom_log [OF com] by (simp add: s')
qed

text \<open>
  Claim C7. \<^verbatim>\<open>PIOS_Board_Init\<close> is idempotent. When the first call (flag clear) returns,
  the flag is set and the driver calls made are exactly those of one bring-up, in order.
  From then on any number of further calls returns the very same state: the flag stays
  set, no driver call is added to the log and \<^verbatim>\<open>PIOS_COM_TELEM_USB\<close> keeps its value.
  So over any run of calls the flag goes from clear to set once, in the first call, and
  all hardware setup happens inside that call.
\<close>

theorem PIOS_Board_Init_idempotent:
  assumes "\<not> board_init_complete s0" and "PIOS_Board_Init drv s0 = Inr s1"
  shows "board_init_complete s1
       \<and> hw_log s1 = hw_log s0 @ bringup_calls drv
       \<and> PIOS_Board_Init drv s1 = Inr s1
       \<and> (\<forall>n. PIOS_Board_Init_times (Suc n) drv s0 = Inr s1)
       \<and> (\<forall>s. board_init_complete s \<longrightarrow> PIOS_Board_Init drv s = Inr s)"
proof -
  have done1: "board_init_complete s1"
    using PIOS_Board_Init_first(1) [OF assms] .
  have "PIOS_Board_Init_times (Suc n) drv s0 = Inr s1" for n
    using assms(2) PIOS_Board_Init_times_done [OF done1] by simp
  then show ?thesis
    using done1 PIOS_Board_Init_first(2) [OF assms] PIOS_Board_Init_done by blast
qed

lemma good_drivers_boot:
  "PIOS_Board_Init good_drivers boot_state =
     Inr \<lparr>board_init_complete = True, PIOS_COM_TELEM_USB = 6,
          hw_log = [PIOS_DELAY_Init, PIOS_BOARD_HW_DEFS_GetLedCfg 1, PIOS_LED_Init 7,
                    RCC_AHBPeriphClockCmd, PIOS_USART_Init, PIOS_COM_MSG_Init 5]\<rparr>"
  by (simp add: PIOS_Board_Init_def led_setup_def setupCom_def log_call_def
      good_drivers_def boot_state_def Let_def)

theorem PIOS_Board_Init_idempotent_witness:
  "\<not> board_init_complete boot_state
   \<and> PIOS_Board_Init_times 3 good_drivers boot_state =
       Inr \<lparr>board_init_complete = True, PIOS_COM_TELEM_USB = 6,
            hw_log = [PIOS_DELAY_Init, PIOS_BOARD_HW_DEFS_GetLedCfg 1, PIOS_LED_Init 7,
                      RCC_AHBPeriphClockCmd, PIOS_USART_Init, PIOS_COM_MSG_Init 5]\<rparr>"
proof -
  have nb: "\<not> board_init_complete boot_state"
    by (simp add: boot_state_def)
  from PIOS_Board_Init_idempotent [OF nb good_drivers_boot]
  have "PIOS_Board_Init_times (Suc 2) good_drivers boot_state =
       Inr \<lparr>board_init_complete = True, PIOS_COM_TELEM_USB = 6,
            hw_log = [PIOS_DELAY_Init, PIOS_BOARD_HW_DEFS_GetLedCfg 1, PIOS_LED_Init 7,
                      RCC_AHBPeriphClockCmd, PIOS_USART_Init, PIOS_COM_MSG_Init 5]\<rparr>"
    by blast
  then show ?thesis using nb by (simp add: numeral_3_eq_3)
qed


section \<open>Theorems about the SLAM task\<close>

subsection \<open>Reading the log and the run\<close>

lemma wake_ticks_append: "wake_ticks (xs @ ys) = wake_ticks xs @ wake_ticks ys"
  by (simp add: wake_ticks_def List.map_filter_def)

lemma wake_ticks_Nil: "wake_ticks [] = []"
  by (simp add: wake_ticks_def List.map_filter_def)

lemma wake_ticks_Cons:
  "wake_ticks (c # cs) = (case wake_tick c of None \<Rightarrow> [] | Some t \<Rightarrow> [t]) @ wake_ticks cs"
  by (simp add: wake_ticks_def List.map_filter_def split: option.splits)

lemmas wake_ticks_simps = wake_ticks_append wake_ticks_Nil wake_ticks_Cons

lemma delay_requests_simps:
  "delay_requests [] = []"
  "delay_requests (c # cs) = (case delay_request c of None \<Rightarrow> [] | Some r \<Rightarrow> [r]) @ delay_requests cs"
  "delay_requests (cs @ cs') = delay_requests cs @ delay_requests cs'"
  by (simp_all add: delay_requests_def List.map_filter_def split: option.splits)

lemma fusion_inputs_simps:
  "fusion_inputs [] = []"
  "fusion_inputs (c # cs) = (case fusion_input c of None \<Rightarrow> [] | Some i \<Rightarrow> [i]) @ fusion_inputs cs"
  "fusion_inputs (cs @ cs') = fusion_inputs cs @ fusion_inputs cs'"
  by (simp_all add: fusion_inputs_def List.map_filter_def split: option.splits)

lemma drawn_lines_simps:
  "drawn_lines [] = []"
  "drawn_lines (c # cs) = (case drawn_line c of None \<Rightarrow> [] | Some l \<Rightarrow> [l]) @ drawn_lines cs"
  "drawn_lines (cs @ cs') = drawn_lines cs @ drawn_lines cs'"
  by (simp_all add: drawn_lines_def List.map_filter_def split: option.splits)

lemma capture_properties_simps:
  "capture_properties [] = []"
  "capture_properties (c # cs) =
     (case capture_property c of None \<Rightarrow> [] | Some l \<Rightarrow> [l]) @ capture_properties cs"
  "capture_properties (cs @ cs') = capture_properties cs @ capture_properties cs'"
  by (simp_all add: capture_properties_def List.map_filter_def split: option.splits)

lemma passes_simps:
  "passes [] = 0"
  "passes (Pass env # hs) = Suc (passes hs)"
  "passes (Settings_changed object # hs) = passes hs"
  "passes (hs @ hs') = passes hs + passes hs'"
  by (simp_all add: passes_def)

lemma passes_replicate: "passes (replicate n (Pass env)) = n"
  by (simp add: passes_def)

lemma settings_after_append:
  "settings_after (hs @ hs') st = settings_after hs' (settings_after hs st)"
  by (induction hs st rule: settings_after.induct) simp_all

subsection \<open>The effect of each step on the state\<close>

lemma loop_delay_fields:
  "frame (loop_delay env s) = frame s + 1"
  "startTime (loop_delay env s) = startTime s"
  "increment (loop_delay env s) = increment s"
  "settings (loop_delay env s) = settings s"
  "VideoSource (loop_delay env s) = VideoSource s"
  "currentFrame (loop_delay env s) = currentFrame s"
  "lastFrame (loop_delay env s) = lastFrame s"
  "calls (loop_delay env s) =
     calls s @ [cvWaitKey, vTaskDelayUntil (startTime s) (startTime s + (frame s + 1) * increment s)]"
  by (simp_all add: loop_delay_def record_call_def Let_def)

lemma loop_sample_fields:
  "frame (loop_sample env s) = frame s"
  "startTime (loop_sample env s) = startTime s"
  "increment (loop_sample env s) = increment s"
  "settings (loop_sample env s) = settings s"
  "VideoSource (loop_sample env s) = VideoSource s"
  "currentFrame (loop_sample env s) = currentFrame s"
  "lastFrame (loop_sample env s) = lastFrame s"
  "calls (loop_sample env s) = calls s @ [PIOS_DELAY_DiffuS (timeval s), PIOS_DELAY_GetRaw]"
  by (simp_all add: loop_sample_def record_call_def Let_def)

lemma loop_acquire_fields:
  "frame (loop_acquire env s) = frame s"
  "startTime (loop_acquire env s) = startTime s"
  "increment (loop_acquire env s) = increment s"
  "settings (loop_acquire env s) = settings s"
  "VideoSource (loop_acquire env s) = VideoSource s"
  "lastFrame (loop_acquire env s) = lastFrame s"
  "currentFrame (loop_acquire env s) = (if VideoSource s \<noteq> None then retrieved env else currentFrame s)"
  "calls (loop_acquire env s) =
     calls s @ (if VideoSource s \<noteq> None then [backgroundGrabFrame] else [])
       @ [AttitudeActualGet, PositionActualGet, VelocityActualGet]
       @ (if VideoSource s \<noteq> None then [cvRetrieveFrame] else [])"
  "attitudeActual (loop_acquire env s) =
     (case attitude_written env of None \<Rightarrow> AttitudeActual_object s | Some v \<Rightarrow> v)"
  by (simp_all add: loop_acquire_def get_attitude_def record_call_def Let_def split: option.splits)

lemma loop_fusion_fields:
  "frame (loop_fusion s) = frame s"
  "startTime (loop_fusion s) = startTime s"
  "increment (loop_fusion s) = increment s"
  "settings (loop_fusion s) = settings s"
  "VideoSource (loop_fusion s) = VideoSource s"
  "currentFrame (loop_fusion s) = currentFrame s"
  "attitudeActual (loop_fusion s) = attitudeActual s"
  "lastFrame (loop_fusion s) = None"
  "calls (loop_fusion s) =
     calls s @ [opencvslam_run \<lparr>input_x = 0\<rparr>]
       @ (case lastFrame s of None \<Rightarrow> [] | Some l \<Rightarrow> [cvReleaseImage l])"
  by (simp_all add: loop_fusion_def record_call_def Let_def split: option.splits)

lemma loop_overlay_fields:
  assumes "loop_overlay pf s = Inr s'"
  shows "frame s' = frame s"
    and "startTime s' = startTime s"
    and "increment s' = increment s"
    and "settings s' = settings s"
    and "VideoSource s' = VideoSource s"
    and "currentFrame s' = currentFrame s"
    and "currentTime s' = currentTime s"
    and "lastFrame s' = (case currentFrame s of None \<Rightarrow> lastFrame s | Some c \<Rightarrow> Some c)"
    and "calls s' = calls s @
           (case currentFrame s of None \<Rightarrow> []
            | Some c \<Rightarrow> [cvCloneImage c,
                cvLine c (fst (the (horizon_line pf (settings s) (attitudeActual s))))
                         (snd (the (horizon_line pf (settings s) (attitudeActual s)))),
                cvShowImage c])"
  using assms
  by (auto simp: loop_overlay_def record_call_def Let_def split: option.splits prod.splits)

lemma loop_overlay_line:
  assumes "loop_overlay pf s = Inr s'"
  shows "attitudeActual s' = attitudeActual s"
    and "currentFrame s \<noteq> None \<Longrightarrow> horizon_line pf (settings s) (attitudeActual s) \<noteq> None"
  using assms
  by (auto simp: loop_overlay_def record_call_def Let_def split: option.splits prod.splits)

lemmas loop_fields = loop_delay_fields loop_sample_fields loop_acquire_fields loop_fusion_fields

lemma loop_body_fields:
  assumes "loop_body pf env s = Inr s'"
  shows "frame s' = frame s + 1"
    and "startTime s' = startTime s"
    and "increment s' = increment s"
    and "settings s' = settings s"
    and "VideoSource s' = VideoSource s"
    and "wake_ticks (calls s') = wake_ticks (calls s) @ [startTime s + (frame s + 1) * increment s]"
proof -
  let ?t = "loop_fusion (loop_acquire env (loop_sample env (loop_delay env s)))"
  from assms obtain u where u: "loop_overlay pf ?t = Inr u"
    and s': "s' = record_call (fprintf_frame (frame u) (currentTime u)) u"
    by (auto simp: loop_body_def split: sum.splits)
  note ov = loop_overlay_fields [OF u]
  show "frame s' = frame s + 1" by (simp add: s' record_call_def ov loop_fields)
  show "startTime s' = startTime s" by (simp add: s' record_call_def ov loop_fields)
  show "increment s' = increment s" by (simp add: s' record_call_def ov loop_fields)
  show "settings s' = settings s" by (simp add: s' record_call_def ov loop_fields)
  show "VideoSource s' = VideoSource s" by (simp add: s' record_call_def ov loop_fields)
  show "wake_ticks (calls s') = wake_ticks (calls s) @ [startTime s + (frame s + 1) * increment s]"
    by (simp add: s' record_call_def ov loop_fields wake_ticks_simps
        split: option.splits)
qed

lemma loop_body_requests:
  assumes "loop_body pf env s = Inr s'"
  shows "delay_requests (calls s') =
           delay_requests (calls s) @ [(startTime s, startTime s + (frame s + 1) * increment s)]"
proof -
  let ?t = "loop_fusion (loop_acquire env (loop_sample env (loop_delay env s)))"
  from assms obtain u where u: "loop_overlay pf ?t = Inr u"
    and s': "s' = record_call (fprintf_frame (frame u) (currentTime u)) u"
    by (auto simp: loop_body_def split: sum.splits)
  note ov = loop_overlay_fields [OF u]
  show ?thesis
    by (simp add: s' record_call_def ov loop_fields delay_requests_simps split: option.splits)
qed

lemma loop_body_overlay:
  assumes "loop_body pf env s = Inr s'"
  shows "attitudeActual s' =
           (case attitude_written env of None \<Rightarrow> AttitudeActual_object s | Some v \<Rightarrow> v)"
    and "currentFrame s' = (if VideoSource s \<noteq> None then retrieved env else currentFrame s)"
    and "capture_properties (calls s') = capture_properties (calls s)"
    and "drawn_lines (calls s') =
           drawn_lines (calls s)
           @ (case currentFrame s' of None \<Rightarrow> []
              | Some c \<Rightarrow> [the (horizon_line pf (settings s) (attitudeActual s'))])"
    and "currentFrame s' \<noteq> None \<Longrightarrow> horizon_line pf (settings s) (attitudeActual s') \<noteq> None"
proof -
  let ?t = "loop_fusion (loop_acquire env (loop_sample env (loop_delay env s)))"
  from assms obtain u where u: "loop_overlay pf ?t = Inr u"
    and s': "s' = record_call (fprintf_frame (frame u) (currentTime u)) u"
    by (auto simp: loop_body_def split: sum.splits)
  note ov = loop_overlay_fields [OF u] loop_overlay_line [OF u]
  have att: "attitudeActual ?t =
           (case attitude_written env of None \<Rightarrow> AttitudeActual_object s | Some v \<Rightarrow> v)"
    by (simp add: loop_fields loop_delay_def loop_sample_def record_call_def Let_def
        split: option.splits)
  show a: "attitudeActual s' =
           (case attitude_written env of None \<Rightarrow> AttitudeActual_object s | Some v \<Rightarrow> v)"
    by (simp add: s' record_call_def ov att)
  show c: "currentFrame s' = (if VideoSource s \<noteq> None then retrieved env else currentFrame s)"
    by (simp add: s' record_call_def ov loop_fields)
  show "capture_properties (calls s') = capture_properties (calls s)"
    by (simp add: s' record_call_def ov loop_fields capture_properties_simps split: option.splits)
  have cf: "currentFrame ?t = currentFrame s'"
    by (simp add: s' record_call_def ov)
  have st: "settings ?t = settings s"
    by (simp add: loop_fields)
  have at: "attitudeActual ?t = attitudeActual s'"
    by (simp add: a att)
  show "drawn_lines (calls s') =
           drawn_lines (calls s)
           @ (case currentFrame s' of None \<Rightarrow> []
              | Some c \<Rightarrow> [the (horizon_line pf (settings s) (attitudeActual s'))])"
    unfolding cf [symmetric] at [symmetric]
    by (simp add: s' record_call_def ov loop_fields drawn_lines_simps st split: option.splits)
  show "horizon_line pf (settings s) (attitudeActual s') \<noteq> None" if "currentFrame s' \<noteq> None"
    using ov(11) that unfolding cf st at by simp
qed

lemma loop_body_defined:
  assumes "horizon_line pf (settings s)
             (case attitude_written env of None \<Rightarrow> AttitudeActual_object s | Some v \<Rightarrow> v) = Some line"
  shows "\<exists>s'. loop_body pf env s = Inr s'"
proof -
  let ?t = "loop_fusion (loop_acquire env (loop_sample env (loop_delay env s)))"
  have att: "attitudeActual ?t =
           (case attitude_written env of None \<Rightarrow> AttitudeActual_object s | Some v \<Rightarrow> v)"
    by (simp add: loop_fields loop_delay_def loop_sample_def record_call_def Let_def
        split: option.splits)
  have st: "settings ?t = settings s"
    by (simp add: loop_fields)
  have "\<exists>u. loop_overlay pf ?t = Inr u"
    unfolding loop_overlay_def Let_def
    using assms
    by (cases "currentFrame ?t"; cases line) (simp_all add: record_call_def att st)
  then show ?thesis
    by (auto simp: loop_body_def)
qed

lemma SettingsUpdatedCb_fields:
  "settings (SettingsUpdatedCb object s) = object"
  "frame (SettingsUpdatedCb object s) = frame s"
  "startTime (SettingsUpdatedCb object s) = startTime s"
  "increment (SettingsUpdatedCb object s) = increment s"
  "VideoSource (SettingsUpdatedCb object s) = VideoSource s"
  "currentFrame (SettingsUpdatedCb object s) = currentFrame s"
  "lastFrame (SettingsUpdatedCb object s) = lastFrame s"
  "calls (SettingsUpdatedCb object s) = calls s"
  "attitudeActual (SettingsUpdatedCb object s) = attitudeActual s"
  "AttitudeActual_object (SettingsUpdatedCb object s) = AttitudeActual_object s"
  by (simp_all add: SettingsUpdatedCb_def)

subsection \<open>Runs of the main loop\<close>

lemma main_loop_timing:
  "main_loop pf hs s = Inr s' \<Longrightarrow>
     frame s' = frame s + of_nat (passes hs)
   \<and> startTime s' = startTime s
   \<and> increment s' = increment s
   \<and> VideoSource s' = VideoSource s
   \<and> wake_ticks (calls s') =
       wake_ticks (calls s) @ map (\<lambda>k. startTime s + (frame s + of_nat k) * increment s) [1..<Suc (passes hs)]"
proof (induction pf hs s rule: main_loop.induct)
  case (1 pf s)
  then show ?case by (simp add: passes_simps)
next
  case (2 pf env hs s)
  from "2.prems" obtain t where t: "loop_body pf env s = Inr t" and r: "main_loop pf hs t = Inr s'"
    by (auto split: sum.splits)
  note b = loop_body_fields [OF t]
  from "2.IH" [OF t r] have ih:
    "frame s' = frame t + of_nat (passes hs)" "startTime s' = startTime t"
    "increment s' = increment t" "VideoSource s' = VideoSource t"
    "wake_ticks (calls s') =
       wake_ticks (calls t) @ map (\<lambda>k. startTime t + (frame t + of_nat k) * increment t) [1..<Suc (passes hs)]"
    by simp_all
  have shift: "map (\<lambda>k. startTime s + (frame s + of_nat k) * increment s) [Suc 1..<Suc (Suc (passes hs))]
      = map (\<lambda>k. startTime s + (frame s + 1 + of_nat k) * increment s) [1..<Suc (passes hs)]"
    by (simp only: map_Suc_upt [symmetric] map_map) (simp add: comp_def ac_simps)
  have split: "[1..<Suc (Suc (passes hs))] = 1 # [Suc 1..<Suc (Suc (passes hs))]"
    by (simp add: upt_rec)
  show ?case
    unfolding passes_simps split
    using shift by (simp add: ih b)
next
  case (3 pf object hs s)
  then show ?case by (simp add: passes_simps SettingsUpdatedCb_fields)
qed

text \<open>
  The delay requests of a run: in each, \<^verbatim>\<open>*pxPreviousWakeTime\<close> is the start tick and
  the second argument is the start tick plus the frame counter times the increment.
\<close>

lemma main_loop_requests:
  "main_loop pf hs s = Inr s' \<Longrightarrow>
     delay_requests (calls s') =
       delay_requests (calls s)
       @ map (\<lambda>k. (startTime s, startTime s + (frame s + of_nat k) * increment s))
           [1..<Suc (passes hs)]"
proof (induction pf hs s rule: main_loop.induct)
  case (1 pf s)
  then show ?case by (simp add: passes_simps)
next
  case (2 pf env hs s)
  from "2.prems" obtain t where t: "loop_body pf env s = Inr t" and r: "main_loop pf hs t = Inr s'"
    by (auto split: sum.splits)
  note b = loop_body_fields [OF t] loop_body_requests [OF t]
  from "2.IH" [OF t r] have ih:
    "delay_requests (calls s') =
       delay_requests (calls t)
       @ map (\<lambda>k. (startTime t, startTime t + (frame t + of_nat k) * increment t))
           [1..<Suc (passes hs)]"
    by simp
  have shift: "map (\<lambda>k. (startTime s, startTime s + (frame s + of_nat k) * increment s))
        [Suc 1..<Suc (Suc (passes hs))]
      = map (\<lambda>k. (startTime s, startTime s + (frame s + 1 + of_nat k) * increment s))
        [1..<Suc (passes hs)]"
    by (simp only: map_Suc_upt [symmetric] map_map) (simp add: comp_def ac_simps)
  have split: "[1..<Suc (Suc (passes hs))] = 1 # [Suc 1..<Suc (Suc (passes hs))]"
    by (simp add: upt_rec)
  show ?case
    unfolding passes_simps split
    using shift by (simp add: ih b)
next
  case (3 pf object hs s)
  then show ?case by (simp add: passes_simps SettingsUpdatedCb_fields SettingsUpdatedCb_def)
qed

lemma main_loop_settings:
  "main_loop pf hs s = Inr s' \<Longrightarrow> settings s' = settings_after hs (settings s)"
proof (induction pf hs s rule: main_loop.induct)
  case (1 pf s)
  then show ?case by simp
next
  case (2 pf env hs s)
  from "2.prems" obtain t where t: "loop_body pf env s = Inr t" and r: "main_loop pf hs t = Inr s'"
    by (auto split: sum.splits)
  from "2.IH" [OF t r] loop_body_fields(4) [OF t] show ?case by simp
next
  case (3 pf object hs s)
  then show ?case by (simp add: SettingsUpdatedCb_fields)
qed

lemma loop_body_degraded:
  assumes "degraded s"
  shows "\<exists>s'. loop_body pf env s = Inr s' \<and> degraded s'
     \<and> filter acquires_or_displays (calls s') = filter acquires_or_displays (calls s)
     \<and> fusion_inputs (calls s') = fusion_inputs (calls s) @ [\<lparr>input_x = 0\<rparr>]"
proof -
  let ?t = "loop_fusion (loop_acquire env (loop_sample env (loop_delay env s)))"
  have cf: "currentFrame ?t = None" and vs: "VideoSource ?t = None" and lf: "lastFrame ?t = None"
    using assms by (simp_all add: degraded_def loop_fields)
  have ct: "calls ?t = calls s @ [cvWaitKey,
       vTaskDelayUntil (startTime s) (startTime s + (frame s + 1) * increment s),
       PIOS_DELAY_DiffuS (timeval (loop_delay env s)), PIOS_DELAY_GetRaw,
       AttitudeActualGet, PositionActualGet, VelocityActualGet, opencvslam_run \<lparr>input_x = 0\<rparr>]"
    using assms by (simp add: degraded_def loop_fields)
  have ov: "loop_overlay pf ?t = Inr ?t"
    by (simp add: loop_overlay_def cf)
  let ?s' = "record_call (fprintf_frame (frame ?t) (currentTime ?t)) ?t"
  have b: "loop_body pf env s = Inr ?s'"
    by (simp add: loop_body_def ov)
  have "degraded ?s'"
    by (simp add: degraded_def record_call_def cf vs lf)
  moreover have "filter acquires_or_displays (calls ?s') = filter acquires_or_displays (calls s)"
    by (simp add: record_call_def ct)
  moreover have "fusion_inputs (calls ?s') = fusion_inputs (calls s) @ [\<lparr>input_x = 0\<rparr>]"
    by (simp add: record_call_def ct fusion_inputs_simps)
  ultimately show ?thesis using b by blast
qed

lemma main_loop_degraded:
  "degraded s \<Longrightarrow>
   \<exists>s'. main_loop pf hs s = Inr s' \<and> degraded s'
     \<and> filter acquires_or_displays (calls s') = filter acquires_or_displays (calls s)
     \<and> fusion_inputs (calls s') = fusion_inputs (calls s) @ replicate (passes hs) \<lparr>input_x = 0\<rparr>"
proof (induction pf hs s rule: main_loop.induct)
  case (1 pf s)
  then show ?case by (simp add: passes_simps)
next
  case (2 pf env hs s)
  from loop_body_degraded [OF "2.prems", of pf env] obtain t where
    t: "loop_body pf env s = Inr t" "degraded t"
       "filter acquires_or_displays (calls t) = filter acquires_or_displays (calls s)"
       "fusion_inputs (calls t) = fusion_inputs (calls s) @ [\<lparr>input_x = 0\<rparr>]"
    by blast
  from "2.IH" [OF t(1) t(2)] obtain s' where
    "main_loop pf hs t = Inr s'" "degraded s'"
       "filter acquires_or_displays (calls s') = filter acquires_or_displays (calls t)"
       "fusion_inputs (calls s') = fusion_inputs (calls t) @ replicate (passes hs) \<lparr>input_x = 0\<rparr>"
    by blast
  with t show ?case by (simp add: passes_simps replicate_append_same [symmetric] del: replicate_append_same)
next
  case (3 pf object hs s)
  have "degraded (SettingsUpdatedCb object s)"
    using "3.prems" by (simp add: degraded_def SettingsUpdatedCb_fields)
  from "3.IH" [OF this] show ?case
    by (simp add: passes_simps SettingsUpdatedCb_fields)
qed

subsection \<open>The handshake\<close>

lemma get_attitude_fields:
  "frame (get_attitude w s) = frame s"
  "startTime (get_attitude w s) = startTime s"
  "increment (get_attitude w s) = increment s"
  "settings (get_attitude w s) = settings s"
  "VideoSource (get_attitude w s) = VideoSource s"
  "currentFrame (get_attitude w s) = currentFrame s"
  "lastFrame (get_attitude w s) = lastFrame s"
  "calls (get_attitude w s) = calls s @ [AttitudeActualGet]"
  "attitudeActual (get_attitude w s) = (case w of None \<Rightarrow> AttitudeActual_object s | Some v \<Rightarrow> v)"
  "AttitudeActual_object (get_attitude w s) = (case w of None \<Rightarrow> AttitudeActual_object s | Some v \<Rightarrow> v)"
  by (simp_all add: get_attitude_def record_call_def Let_def)

lemma handshake_mark_fields:
  "frame (handshake_mark s) = frame s"
  "startTime (handshake_mark s) = startTime s"
  "increment (handshake_mark s) = increment s"
  "settings (handshake_mark s) = settings s"
  "VideoSource (handshake_mark s) = VideoSource s"
  "currentFrame (handshake_mark s) = currentFrame s"
  "lastFrame (handshake_mark s) = lastFrame s"
  "calls (handshake_mark s) =
     calls s @ [AttitudeActualGet, AttitudeActualSet ((AttitudeActual_object s)\<lparr>Pitch := 100\<rparr>)]"
  "attitudeActual (handshake_mark s) = (AttitudeActual_object s)\<lparr>Pitch := 100\<rparr>"
  "AttitudeActual_object (handshake_mark s) = (AttitudeActual_object s)\<lparr>Pitch := 100\<rparr>"
  by (simp_all add: handshake_mark_def get_attitude_def record_call_def Let_def)

text \<open>A property that no read of the orientation object disturbs holds when the wait ends.\<close>

lemma handshake_wait_preserves:
  assumes "handshake_wait writes k s = Some s'"
    and "\<And>w t. P (get_attitude w t) = P t"
  shows "P s' = P s"
  using assms(1)
  by (rule handshake_wait.raw_induct [rotated, where P = "\<lambda>writes k s s'. P s' = P s"])
     (auto split: if_splits simp: assms(2))

lemma handshake_wait_exit:
  assumes "handshake_wait writes k s = Some s'"
  shows "Pitch (attitudeActual s') \<noteq> 100"
  using assms
  by (rule handshake_wait.raw_induct
        [rotated, where P = "\<lambda>writes k s s'. Pitch (attitudeActual s') \<noteq> 100"])
     (auto split: if_splits)

text \<open>While every sample that is written has pitch 100, the wait does not end.\<close>

lemma handshake_wait_Some_written:
  assumes "handshake_wait writes k s = Some s'"
    and "\<forall>k v. writes k = Some v \<longrightarrow> Pitch v = 100"
  shows "\<not> (Pitch (attitudeActual s) = 100 \<and> Pitch (AttitudeActual_object s) = 100)"
proof -
  have "(\<forall>k v. writes k = Some v \<longrightarrow> Pitch v = 100) \<longrightarrow>
        \<not> (Pitch (attitudeActual s) = 100 \<and> Pitch (AttitudeActual_object s) = 100)"
    using assms(1)
  proof (rule handshake_wait.raw_induct [rotated, where P = "\<lambda>writes k s s'.
        (\<forall>k v. writes k = Some v \<longrightarrow> Pitch v = 100) \<longrightarrow>
        \<not> (Pitch (attitudeActual s) = 100 \<and> Pitch (AttitudeActual_object s) = 100)"])
    fix f :: "(nat \<Rightarrow> AttitudeActualData option) \<Rightarrow> nat \<Rightarrow> task_state \<Rightarrow> task_state option"
    fix writes k s s'
    assume IH: "\<And>writes k s s'. f writes k s = Some s' \<Longrightarrow>
        (\<forall>k v. writes k = Some v \<longrightarrow> Pitch v = 100) \<longrightarrow>
        \<not> (Pitch (attitudeActual s) = 100 \<and> Pitch (AttitudeActual_object s) = 100)"
    assume body: "(if Pitch (attitudeActual s) = 100
        then f writes (Suc k) (get_attitude (writes k) s) else Some s) = Some s'"
    show "(\<forall>k v. writes k = Some v \<longrightarrow> Pitch v = 100) \<longrightarrow>
        \<not> (Pitch (attitudeActual s) = 100 \<and> Pitch (AttitudeActual_object s) = 100)"
    proof (intro impI notI)
      assume w: "\<forall>k v. writes k = Some v \<longrightarrow> Pitch v = 100"
      assume p: "Pitch (attitudeActual s) = 100 \<and> Pitch (AttitudeActual_object s) = 100"
      with body have "f writes (Suc k) (get_attitude (writes k) s) = Some s'" by simp
      from IH [OF this] w
      have "\<not> (Pitch (attitudeActual (get_attitude (writes k) s)) = 100
             \<and> Pitch (AttitudeActual_object (get_attitude (writes k) s)) = 100)"
        by blast
      moreover have "Pitch (attitudeActual (get_attitude (writes k) s)) = 100
             \<and> Pitch (AttitudeActual_object (get_attitude (writes k) s)) = 100"
        using p w by (cases "writes k") (simp_all add: get_attitude_fields)
      ultimately show False by blast
    qed
  qed
  with assms(2) show ?thesis by blast
qed

lemma handshake_wait_None:
  assumes "\<forall>k v. writes k = Some v \<longrightarrow> Pitch v = 100"
    and "Pitch (attitudeActual s) = 100" and "Pitch (AttitudeActual_object s) = 100"
  shows "handshake_wait writes k s = None"
proof (cases "handshake_wait writes k s")
  case None
  then show ?thesis .
next
  case (Some s')
  from handshake_wait_Some_written [OF Some assms(1)] assms(2,3) show ?thesis by blast
qed

text \<open>A written sample with another pitch ends the wait.\<close>

lemma handshake_wait_ends:
  assumes "writes (k + d) = Some v" and "Pitch v \<noteq> 100"
  shows "\<exists>s'. handshake_wait writes k s = Some s'"
  using assms
proof (induction d arbitrary: k s)
  case 0
  show ?case
  proof (cases "Pitch (attitudeActual s) = 100")
    case True
    have "handshake_wait writes (Suc k) (get_attitude (writes k) s) = Some (get_attitude (writes k) s)"
      using 0 by (subst handshake_wait.simps) (simp add: get_attitude_fields)
    with True show ?thesis by (subst handshake_wait.simps) simp
  next
    case False
    then show ?thesis by (subst handshake_wait.simps) simp
  qed
next
  case (Suc d)
  show ?case
  proof (cases "Pitch (attitudeActual s) = 100")
    case True
    from Suc.IH [of "Suc k" "get_attitude (writes k) s"] Suc.prems
    obtain s' where "handshake_wait writes (Suc k) (get_attitude (writes k) s) = Some s'"
      by auto
    with True show ?thesis by (subst handshake_wait.simps) simp
  next
    case False
    then show ?thesis by (subst handshake_wait.simps) simp
  qed
qed

text \<open>
  The wait ends at the first read that finds a sample of another pitch: it has made one
  read per turn, and none after.
\<close>

lemma handshake_wait_first:
  assumes "Pitch (attitudeActual s) = 100" and "Pitch (AttitudeActual_object s) = 100"
    and "writes (k + d) = Some v" and "Pitch v \<noteq> 100"
    and "\<forall>j<d. \<forall>u. writes (k + j) = Some u \<longrightarrow> Pitch u = 100"
  shows "\<exists>s'. handshake_wait writes k s = Some s'
     \<and> attitudeActual s' = v \<and> AttitudeActual_object s' = v
     \<and> calls s' = calls s @ replicate (Suc d) AttitudeActualGet"
  using assms
proof (induction d arbitrary: k s)
  case 0
  let ?t = "get_attitude (writes k) s"
  have t: "attitudeActual ?t = v" "AttitudeActual_object ?t = v"
      "calls ?t = calls s @ [AttitudeActualGet]"
    using "0.prems"(3) by (simp_all add: get_attitude_fields)
  have "handshake_wait writes (Suc k) ?t = Some ?t"
    using "0.prems"(4) t(1) by (subst handshake_wait.simps) simp
  with "0.prems"(1) have "handshake_wait writes k s = Some ?t"
    by (subst handshake_wait.simps) simp
  with t show ?case by simp
next
  case (Suc d)
  let ?t = "get_attitude (writes k) s"
  have w: "\<forall>u. writes k = Some u \<longrightarrow> Pitch u = 100"
    using Suc.prems(5) by (auto dest: spec [of _ 0])
  have t: "Pitch (attitudeActual ?t) = 100" "Pitch (AttitudeActual_object ?t) = 100"
      "calls ?t = calls s @ [AttitudeActualGet]"
    using w Suc.prems(2) by (cases "writes k"; simp add: get_attitude_fields)+
  have v: "writes (Suc k + d) = Some v"
    using Suc.prems(3) by simp
  have q: "\<forall>j<d. \<forall>u. writes (Suc k + j) = Some u \<longrightarrow> Pitch u = 100"
  proof (intro allI impI)
    fix j u
    assume "j < d" and "writes (Suc k + j) = Some u"
    then have "Suc j < Suc d" and "writes (k + Suc j) = Some u" by simp_all
    with Suc.prems(5) show "Pitch u = 100" by blast
  qed
  from Suc.IH [OF t(1,2) v Suc.prems(4) q] obtain s' where
    s': "handshake_wait writes (Suc k) ?t = Some s'" "attitudeActual s' = v"
      "AttitudeActual_object s' = v"
      "calls s' = calls ?t @ replicate (Suc d) AttitudeActualGet"
    by blast
  from s'(1) Suc.prems(1) have "handshake_wait writes k s = Some s'"
    by (subst handshake_wait.simps) simp
  moreover have "calls s' = calls s @ replicate (Suc (Suc d)) AttitudeActualGet"
    by (simp add: s'(4) t(3))
  ultimately show ?case using s'(2,3) by blast
qed

lemma level_pitch: "Pitch level \<noteq> 100"
  by (simp add: level_def)

subsection \<open>From the start of the task to the main loop\<close>

lemma init_timing_Inr:
  "tick_increment pf (settings s) = Some inc \<Longrightarrow> \<exists>s'. init_timing pf env s = Inr s'"
  by (simp add: init_timing_def record_call_def Let_def)

lemma open_video_fields:
  "frame (open_video env s) = frame s"
  "settings (open_video env s) = settings s"
  "AttitudeActual_object (open_video env s) = AttitudeActual_object s"
  "VideoSource (open_video env s) = video_open env"
  "currentFrame (open_video env s) =
     (if video_open env \<noteq> None then first_frame env else currentFrame s)"
  "lastFrame (open_video env s) =
     (case (if video_open env \<noteq> None then first_frame env else currentFrame s) of
        None \<Rightarrow> lastFrame s | Some c \<Rightarrow> Some c)"
  "calls (open_video env s) =
     calls s @ [cvCaptureFromFile]
     @ (if video_open env \<noteq> None
        then [cvGrabFrame, cvRetrieveFrame,
              cvSetCaptureProperty CV_CAP_PROP_FRAME_WIDTH (unat (FrameDimensions_X (settings s))),
              cvSetCaptureProperty CV_CAP_PROP_FRAME_HEIGHT (unat (FrameDimensions_Y (settings s)))]
        else [])
     @ (case (if video_open env \<noteq> None then first_frame env else currentFrame s) of
          None \<Rightarrow> [] | Some c \<Rightarrow> [cvCloneImage c])
     @ [cvNamedWindow]"
  by (auto simp: open_video_def record_call_def Let_def split: option.splits)

lemma init_timing_fields:
  assumes "init_timing pf env s = Inr s'"
  shows "tick_increment pf (settings s) = Some (increment s')"
    and "startTime s' = first_tick env"
    and "frame s' = frame s"
    and "settings s' = settings s"
    and "AttitudeActual_object s' = AttitudeActual_object s"
    and "VideoSource s' = VideoSource s"
    and "currentFrame s' = currentFrame s"
    and "lastFrame s' = lastFrame s"
    and "calls s' = calls s @ [PIOS_DELAY_GetRaw, xTaskGetTickCount,
           fprintf_init (first_raw env) (increment s')]"
  using assms
  by (auto simp: init_timing_def record_call_def Let_def split: option.splits)

text \<open>The state in which the main loop starts, when the task gets there.\<close>

lemma slamTask_loop_entry:
  assumes "slamTask pf env writes hs st object = Some r"
    and "tick_increment pf st = Some inc"
  obtains s0 where "r = main_loop pf hs s0"
    and "frame s0 = 0" and "startTime s0 = first_tick env" and "increment s0 = inc"
    and "settings s0 = st" and "VideoSource s0 = video_open env"
    and "currentFrame s0 = (if video_open env \<noteq> None then first_frame env else None)"
    and "lastFrame s0 = currentFrame s0"
    and "wake_ticks (calls s0) = []"
    and "Pitch (attitudeActual s0) \<noteq> 100"
    and "filter acquires_or_displays (calls s0) =
         (if video_open env \<noteq> None
          then [cvGrabFrame, cvRetrieveFrame]
               @ (case first_frame env of None \<Rightarrow> [] | Some c \<Rightarrow> [cvCloneImage c])
          else [])"
    and "fusion_inputs (calls s0) = []"
    and "delay_requests (calls s0) = []"
proof -
  let ?e = "open_video env (task_entry st object)"
  have "tick_increment pf (settings ?e) = Some inc"
    using assms(2) by (simp add: open_video_fields task_entry_def)
  from init_timing_Inr [OF this] obtain s1 where s1: "init_timing pf env ?e = Inr s1"
    by blast
  note t = init_timing_fields [OF s1]
  from assms(1) s1 obtain s0 where w: "handshake_wait writes 0 (handshake_mark s1) = Some s0"
    and r: "r = main_loop pf hs s0"
    by (auto simp: slamTask_def split: option.splits)
  note p = handshake_wait_preserves [OF w]
  have inc: "increment s1 = inc"
    using t(1) assms(2) by (simp add: open_video_fields task_entry_def)
  have "frame s0 = 0"
    using p [of frame] by (simp add: get_attitude_fields handshake_mark_fields t open_video_fields task_entry_def)
  moreover have "startTime s0 = first_tick env"
    using p [of startTime] by (simp add: get_attitude_fields handshake_mark_fields t)
  moreover have "increment s0 = inc"
    using p [of increment] by (simp add: get_attitude_fields handshake_mark_fields inc)
  moreover have "settings s0 = st"
    using p [of settings] by (simp add: get_attitude_fields handshake_mark_fields t open_video_fields task_entry_def)
  moreover have "VideoSource s0 = video_open env"
    using p [of VideoSource] by (simp add: get_attitude_fields handshake_mark_fields t open_video_fields)
  moreover have cf: "currentFrame s0 = (if video_open env \<noteq> None then first_frame env else None)"
    using p [of currentFrame] by (simp add: get_attitude_fields handshake_mark_fields t open_video_fields task_entry_def)
  moreover have "lastFrame s0 = currentFrame s0"
    using p [of lastFrame] unfolding cf
    by (simp add: get_attitude_fields handshake_mark_fields t open_video_fields task_entry_def
        split: option.splits)
  moreover have "wake_ticks (calls s0) = []"
    using p [of "\<lambda>s. wake_ticks (calls s)"]
    by (simp add: get_attitude_fields handshake_mark_fields t open_video_fields task_entry_def
        wake_ticks_simps split: option.splits)
  moreover have "Pitch (attitudeActual s0) \<noteq> 100"
    by (rule handshake_wait_exit [OF w])
  moreover have "filter acquires_or_displays (calls s0) =
         (if video_open env \<noteq> None
          then [cvGrabFrame, cvRetrieveFrame]
               @ (case first_frame env of None \<Rightarrow> [] | Some c \<Rightarrow> [cvCloneImage c])
          else [])"
    using p [of "\<lambda>s. filter acquires_or_displays (calls s)"]
    by (simp add: get_attitude_fields handshake_mark_fields t open_video_fields task_entry_def
        split: option.splits)
  moreover have "fusion_inputs (calls s0) = []"
    using p [of "\<lambda>s. fusion_inputs (calls s)"]
    by (simp add: get_attitude_fields handshake_mark_fields t open_video_fields task_entry_def
        fusion_inputs_simps split: option.splits)
  moreover have "delay_requests (calls s0) = []"
    using p [of "\<lambda>s. delay_requests (calls s)"]
    by (simp add: get_attitude_fields handshake_mark_fields t open_video_fields task_entry_def
        delay_requests_simps split: option.splits)
  ultimately show ?thesis using that r by blast
qed

lemma slamTask_Inr_increment:
  assumes "slamTask pf env writes hs st object = Some (Inr s')"
  shows "\<exists>inc. tick_increment pf st = Some inc"
proof (cases "tick_increment pf st")
  case None
  then have "init_timing pf env (open_video env (task_entry st object)) = Inl Undefined_conversion"
    by (simp add: init_timing_def record_call_def Let_def open_video_fields task_entry_def)
  with assms show ?thesis by (simp add: slamTask_def)
next
  case (Some inc)
  then show ?thesis by blast
qed

text \<open>The delay requests of the task after a run of the main loop.\<close>

lemma slamTask_requests:
  assumes "slamTask pf env writes hs st object = Some (Inr s')"
    and "tick_increment pf st = Some inc"
  shows "delay_requests (calls s') =
           map (\<lambda>k. (first_tick env, first_tick env + of_nat k * inc)) [1..<Suc (passes hs)]"
proof -
  from slamTask_loop_entry [OF assms] obtain s0 where
    r: "Inr s' = main_loop pf hs s0" and
    s0: "frame s0 = 0" "startTime s0 = first_tick env" "increment s0 = inc"
        "delay_requests (calls s0) = []"
    by metis
  from main_loop_requests [OF r [symmetric]] s0 show ?thesis
    by simp
qed

text \<open>The frame counter, the start tick and the increment after a run of the main loop.\<close>

lemma slamTask_timing:
  assumes "slamTask pf env writes hs st object = Some (Inr s')"
    and "tick_increment pf st = Some inc"
  shows "frame s' = of_nat (passes hs)" and "startTime s' = first_tick env"
    and "increment s' = inc"
proof -
  from slamTask_loop_entry [OF assms] obtain s0 where
    r: "Inr s' = main_loop pf hs s0" and
    s0: "frame s0 = 0" "startTime s0 = first_tick env" "increment s0 = inc"
    by metis
  from main_loop_timing [OF r [symmetric]] s0
  show "frame s' = of_nat (passes hs)" and "startTime s' = first_tick env"
    and "increment s' = inc"
    by simp_all
qed

text \<open>When a sample of another pitch is written, the task gets to its main loop.\<close>

lemma slamTask_reaches_loop:
  assumes "tick_increment pf st = Some inc" and "writes d = Some v" and "Pitch v \<noteq> 100"
  shows "slamTask pf env writes hs st object \<noteq> None"
proof -
  let ?e = "open_video env (task_entry st object)"
  have "tick_increment pf (settings ?e) = Some inc"
    using assms(1) by (simp add: open_video_fields task_entry_def)
  from init_timing_Inr [OF this] obtain s1 where s1: "init_timing pf env ?e = Inr s1"
    by blast
  from handshake_wait_ends [of writes 0 d v "handshake_mark s1"] assms(2,3)
  obtain s0 where "handshake_wait writes 0 (handshake_mark s1) = Some s0"
    by auto
  then show ?thesis
    by (simp add: slamTask_def s1)
qed

text \<open>Without a video source, and once the handshake ends, every finite run is defined.\<close>

lemma slamTask_degraded:
  assumes "video_open env = None" and "tick_increment pf st = Some inc"
    and "writes d = Some v" and "Pitch v \<noteq> 100"
  shows "\<exists>s'. slamTask pf env writes hs st object = Some (Inr s') \<and> degraded s'"
proof -
  let ?e = "open_video env (task_entry st object)"
  have "tick_increment pf (settings ?e) = Some inc"
    using assms(2) by (simp add: open_video_fields task_entry_def)
  from init_timing_Inr [OF this] obtain s1 where s1: "init_timing pf env ?e = Inr s1"
    by blast
  from handshake_wait_ends [of writes 0 d v "handshake_mark s1"] assms(3,4)
  obtain s0 where w: "handshake_wait writes 0 (handshake_mark s1) = Some s0"
    by auto
  have r: "slamTask pf env writes hs st object = Some (main_loop pf hs s0)"
    by (simp add: slamTask_def s1 w)
  note p = handshake_wait_preserves [OF w]
  note t = init_timing_fields [OF s1]
  have "VideoSource s0 = None"
    using p [of VideoSource] assms(1)
    by (simp add: get_attitude_fields handshake_mark_fields t open_video_fields)
  moreover have "currentFrame s0 = None"
    using p [of currentFrame] assms(1)
    by (simp add: get_attitude_fields handshake_mark_fields t open_video_fields task_entry_def)
  moreover have "lastFrame s0 = None"
    using p [of lastFrame] assms(1)
    by (simp add: get_attitude_fields handshake_mark_fields t open_video_fields task_entry_def)
  ultimately have "degraded s0"
    by (simp add: degraded_def)
  from main_loop_degraded [OF this, of pf hs] r show ?thesis by auto
qed

subsection \<open>Rounding\<close>

lemma rounding_mono: "rounding u rnd \<Longrightarrow> v \<le> w \<Longrightarrow> rnd v \<le> rnd w"
  by (simp add: rounding_def)

lemma rounding_int: "rounding u rnd \<Longrightarrow> \<bar>i\<bar> \<le> 2 ^ 23 \<Longrightarrow> rnd (real_of_int i) = real_of_int i"
  by (simp add: rounding_def)

lemma rounding_nat: "rounding u rnd \<Longrightarrow> n \<le> 2 ^ 23 \<Longrightarrow> rnd (real n) = real n"
  using rounding_int [of u rnd "int n"] by simp

lemma rounding_zero: "rounding u rnd \<Longrightarrow> rnd 0 = 0"
  using rounding_int [of u rnd 0] by simp

lemma rounding_error:
  "rounding u rnd \<Longrightarrow> \<bar>v\<bar> \<le> 2 ^ 100 \<Longrightarrow> \<bar>rnd v - v\<bar> \<le> u * \<bar>v\<bar> + u / 2 ^ 100"
  by (simp add: rounding_def)

lemma float_error:
  assumes "ieee_like pf" and "\<bar>v\<bar> \<le> 1000000000000"
  shows "\<bar>to_float pf v - v\<bar> \<le> \<bar>v\<bar> / 16777216 + 1 / 1000000000000000000000000000000"
proof -
  have "rounding (1 / 2 ^ 24) (to_float pf)"
    using assms(1) by (simp add: ieee_like_def)
  moreover have "\<bar>v\<bar> \<le> 2 ^ 100"
    using assms(2) by simp
  ultimately have "\<bar>to_float pf v - v\<bar> \<le> 1 / 2 ^ 24 * \<bar>v\<bar> + 1 / 2 ^ 24 / 2 ^ 100"
    by (rule rounding_error)
  then show ?thesis by simp
qed

lemma double_error:
  assumes "ieee_like pf" and "\<bar>v\<bar> \<le> 1000000000000"
  shows "\<bar>to_double pf v - v\<bar> \<le> \<bar>v\<bar> / 9007199254740992 + 1 / 1000000000000000000000000000000"
proof -
  have "rounding (1 / 2 ^ 53) (to_double pf)"
    using assms(1) by (simp add: ieee_like_def)
  moreover have "\<bar>v\<bar> \<le> 2 ^ 100"
    using assms(2) by simp
  ultimately have "\<bar>to_double pf v - v\<bar> \<le> 1 / 2 ^ 53 * \<bar>v\<bar> + 1 / 2 ^ 53 / 2 ^ 100"
    by (rule rounding_error)
  then show ?thesis by simp
qed

lemma float_nat: "ieee_like pf \<Longrightarrow> n \<le> 2 ^ 23 \<Longrightarrow> to_float pf (real n) = real n"
  using rounding_nat [of "1 / 2 ^ 24" "to_float pf" n] by (simp add: ieee_like_def)

lemma double_nat: "ieee_like pf \<Longrightarrow> n \<le> 2 ^ 23 \<Longrightarrow> to_double pf (real n) = real n"
  using rounding_nat [of "1 / 2 ^ 53" "to_double pf" n] by (simp add: ieee_like_def)

lemma double_zero: "ieee_like pf \<Longrightarrow> to_double pf 0 = 0"
  using rounding_zero [of "1 / 2 ^ 53" "to_double pf"] by (simp add: ieee_like_def)

subsection \<open>The platform with binary rounding\<close>

lemma powr2_cancel: "2 powr a \<le> 2 powr b \<Longrightarrow> a \<le> (b::real)"
  by simp

lemma round_even_error: "\<bar>real_of_int (round_even x) - x\<bar> \<le> 1 / 2"
  unfolding round_even_def Let_def by (auto; linarith)

lemma round_even_int: "round_even (real_of_int i) = i"
  by (simp add: round_even_def)

lemma round_even_range: "\<lfloor>x\<rfloor> \<le> round_even x" "round_even x \<le> \<lfloor>x\<rfloor> + 1"
  by (simp_all add: round_even_def Let_def)

lemma round_even_mono:
  assumes "x \<le> y"
  shows "round_even x \<le> round_even y"
proof (cases "\<lfloor>x\<rfloor> = \<lfloor>y\<rfloor>")
  case True
  then show ?thesis
    using assms unfolding round_even_def Let_def by auto
next
  case False
  with assms have "\<lfloor>x\<rfloor> < \<lfloor>y\<rfloor>"
    using floor_mono [OF assms] by linarith
  then have "round_even x \<le> \<lfloor>y\<rfloor>"
    using round_even_range(2) [of x] by linarith
  then show ?thesis
    using round_even_range(1) [of y] by linarith
qed

lemma round_even_ge: "real_of_int i \<le> x \<Longrightarrow> i \<le> round_even x"
  using round_even_mono [of "real_of_int i" x] by (simp add: round_even_int)

lemma round_even_le: "x \<le> real_of_int i \<Longrightarrow> round_even x \<le> i"
  using round_even_mono [of x "real_of_int i"] by (simp add: round_even_int)

lemma binade_bounds:
  assumes "v \<noteq> 0"
  shows "2 powr real_of_int (binade v) \<le> \<bar>v\<bar>" and "\<bar>v\<bar> < 2 powr real_of_int (binade v + 1)"
proof -
  have "0 < \<bar>v\<bar>" using assms by simp
  then have "2 powr real_of_int (binade v) \<le> \<bar>v\<bar> \<and> \<bar>v\<bar> < 2 powr real_of_int (binade v + 1)"
    using floor_log_eq_powr_iff [of "\<bar>v\<bar>" 2 "binade v"] by (simp add: binade_def)
  then show "2 powr real_of_int (binade v) \<le> \<bar>v\<bar>" "\<bar>v\<bar> < 2 powr real_of_int (binade v + 1)"
    by simp_all
qed

lemma scale_pos: "0 < 2 powr real_of_int e"
  by simp

lemma scaled_bounds:
  assumes "v \<noteq> 0" and "1 \<le> p"
  defines "s \<equiv> 2 powr real_of_int (binade v - int p + 1)"
  shows "2 ^ (p - 1) \<le> \<bar>v / s\<bar>" and "\<bar>v / s\<bar> < 2 ^ p"
proof -
  have s: "0 < s" by (simp add: s_def)
  have lo: "2 powr real_of_int (binade v) = 2 ^ (p - 1) * s"
  proof -
    have "real_of_int (binade v) = real (p - 1) + real_of_int (binade v - int p + 1)"
      using assms(2) by simp
    then have "2 powr real_of_int (binade v) = 2 powr real (p - 1) * s"
      unfolding s_def by (simp only: powr_add)
    then show ?thesis by (simp add: powr_realpow)
  qed
  have hi: "2 powr real_of_int (binade v + 1) = 2 ^ p * s"
  proof -
    have "real_of_int (binade v + 1) = real p + real_of_int (binade v - int p + 1)"
      by simp
    then have "2 powr real_of_int (binade v + 1) = 2 powr real p * s"
      unfolding s_def by (simp only: powr_add)
    then show ?thesis by (simp add: powr_realpow)
  qed
  have "2 ^ (p - 1) * s \<le> \<bar>v\<bar>" "\<bar>v\<bar> < 2 ^ p * s"
    using binade_bounds [OF assms(1)] unfolding lo hi .
  then show "2 ^ (p - 1) \<le> \<bar>v / s\<bar>" "\<bar>v / s\<bar> < 2 ^ p"
    using s by (simp_all add: field_simps)
qed

lemma round_to_error:
  assumes "1 \<le> p"
  shows "\<bar>round_to p v - v\<bar> \<le> \<bar>v\<bar> / 2 ^ p"
proof (cases "v = 0")
  case True
  then show ?thesis by (simp add: round_to_def)
next
  case False
  define s where "s = 2 powr real_of_int (binade v - int p + 1)"
  define m where "m = v / s"
  have s: "0 < s" by (simp add: s_def)
  have v: "v = m * s" using s by (simp add: m_def)
  have r: "round_to p v = real_of_int (round_even m) * s"
    using False by (simp add: round_to_def Let_def s_def m_def)
  have "\<bar>round_to p v - v\<bar> = \<bar>real_of_int (round_even m) - m\<bar> * s"
    using s by (simp add: r v [symmetric] m_def abs_mult [symmetric] left_diff_distrib field_simps)
  also have "\<dots> \<le> 1 / 2 * s"
    using round_even_error [of m] s by (intro mult_right_mono) simp_all
  also have "\<dots> \<le> \<bar>v\<bar> / 2 ^ p"
  proof -
    have "2 ^ (p - 1) \<le> \<bar>m\<bar>"
      using scaled_bounds(1) [OF False assms] by (simp add: m_def s_def)
    then have "2 ^ (p - 1) * s \<le> \<bar>m\<bar> * s"
      using s by (intro mult_right_mono) simp_all
    then have "2 ^ (p - 1) * s \<le> \<bar>v\<bar>"
      using s by (simp add: v abs_mult)
    moreover have "(2::real) ^ p = 2 * 2 ^ (p - 1)"
      using assms by (cases p) simp_all
    ultimately show ?thesis
      by (simp add: field_simps)
  qed
  finally show ?thesis .
qed

lemma round_to_int:
  assumes "\<bar>i\<bar> \<le> 2 ^ q" and "q < p"
  shows "round_to p (real_of_int i) = real_of_int i"
proof (cases "i = 0")
  case True
  then show ?thesis by (simp add: round_to_def)
next
  case False
  define v where "v = real_of_int i"
  define e where "e = binade v - int p + 1"
  define s where "s = 2 powr real_of_int e"
  have v0: "v \<noteq> 0" using False by (simp add: v_def)
  have "\<bar>v\<bar> \<le> 2 ^ q"
  proof -
    have "real_of_int \<bar>i\<bar> \<le> real_of_int (2 ^ q)" using assms(1) by (simp only: of_int_le_iff)
    then show ?thesis by (simp add: v_def)
  qed
  moreover have "(2::real) powr real_of_int (int q) = 2 ^ q"
    using powr_realpow [of 2 q] by simp
  ultimately have "2 powr real_of_int (binade v) \<le> 2 powr real_of_int (int q)"
    using binade_bounds(1) [OF v0] by linarith
  then have "real_of_int (binade v) \<le> real_of_int (int q)"
    by (rule powr2_cancel)
  then have "binade v \<le> int q"
    by (simp only: of_int_le_iff)
  then have e: "e \<le> 0" using assms(2) by (simp add: e_def)
  define n where "n = nat (- e)"
  have en: "real_of_int e = - real n" using e by (simp add: n_def)
  have s: "s = 1 / 2 ^ n"
    by (simp add: s_def en powr_minus powr_realpow inverse_eq_divide)
  have "v / s = real_of_int (i * 2 ^ n)"
    by (simp add: s v_def)
  then have "round_even (v / s) = i * 2 ^ n"
    by (simp only: round_even_int)
  then have "real_of_int (round_even (v / s)) * s = v"
    by (simp add: s v_def)
  then show ?thesis
    using v0 by (simp add: round_to_def Let_def s_def e_def v_def)
qed

text \<open>The result lies in the closed binade of the argument, with its sign.\<close>

lemma round_to_pos:
  assumes "0 < v" and "1 \<le> p"
  shows "2 powr real_of_int (binade v) \<le> round_to p v"
    and "round_to p v \<le> 2 powr real_of_int (binade v + 1)"
proof -
  define s where "s = 2 powr real_of_int (binade v - int p + 1)"
  define m where "m = v / s"
  have s: "0 < s" by (simp add: s_def)
  have v0: "v \<noteq> 0" using assms(1) by simp
  have m0: "0 < m" using assms(1) s by (simp add: m_def)
  have r: "round_to p v = real_of_int (round_even m) * s"
    using v0 by (simp add: round_to_def Let_def s_def m_def)
  have "2 ^ (p - 1) \<le> \<bar>m\<bar>" "\<bar>m\<bar> < 2 ^ p"
    unfolding m_def s_def by (rule scaled_bounds [OF v0 assms(2)])+
  then have b: "2 ^ (p - 1) \<le> m" "m < 2 ^ p"
    using m0 by linarith+
  have "real_of_int (2 ^ (p - 1)) \<le> m" "m \<le> real_of_int (2 ^ p)"
    using b by simp_all
  then have "2 ^ (p - 1) \<le> round_even m" "round_even m \<le> 2 ^ p"
    using round_even_ge [of "2 ^ (p - 1)" m] round_even_le [of m "2 ^ p"] by blast+
  then have "real_of_int (2 ^ (p - 1)) \<le> real_of_int (round_even m)"
      "real_of_int (round_even m) \<le> real_of_int (2 ^ p)"
    by (simp_all only: of_int_le_iff)
  then have i: "2 ^ (p - 1) * s \<le> round_to p v" "round_to p v \<le> 2 ^ p * s"
    unfolding r using s by (simp_all add: mult_right_mono)
  have "real_of_int (binade v) = real (p - 1) + real_of_int (binade v - int p + 1)"
    using assms(2) by simp
  then have "2 powr real_of_int (binade v) = 2 powr real (p - 1) * s"
    unfolding s_def by (simp only: powr_add)
  then have lo: "2 powr real_of_int (binade v) = 2 ^ (p - 1) * s"
    by (simp add: powr_realpow)
  have "real_of_int (binade v + 1) = real p + real_of_int (binade v - int p + 1)"
    by simp
  then have "2 powr real_of_int (binade v + 1) = 2 powr real p * s"
    unfolding s_def by (simp only: powr_add)
  then have hi: "2 powr real_of_int (binade v + 1) = 2 ^ p * s"
    by (simp add: powr_realpow)
  show "2 powr real_of_int (binade v) \<le> round_to p v"
    and "round_to p v \<le> 2 powr real_of_int (binade v + 1)"
    unfolding lo hi using i by simp_all
qed

lemma round_to_neg:
  assumes "v < 0" and "1 \<le> p"
  shows "- (2 powr real_of_int (binade v + 1)) \<le> round_to p v"
    and "round_to p v \<le> - (2 powr real_of_int (binade v))"
proof -
  define s where "s = 2 powr real_of_int (binade v - int p + 1)"
  define m where "m = v / s"
  have s: "0 < s" by (simp add: s_def)
  have v0: "v \<noteq> 0" using assms(1) by simp
  have m0: "m < 0" using assms(1) s by (simp add: m_def field_simps)
  have r: "round_to p v = real_of_int (round_even m) * s"
    using v0 by (simp add: round_to_def Let_def s_def m_def)
  have "2 ^ (p - 1) \<le> \<bar>m\<bar>" "\<bar>m\<bar> < 2 ^ p"
    unfolding m_def s_def by (rule scaled_bounds [OF v0 assms(2)])+
  then have b: "m \<le> - (2 ^ (p - 1))" "- (2 ^ p) < m"
    using m0 by linarith+
  have "real_of_int (- (2 ^ p)) \<le> m" "m \<le> real_of_int (- (2 ^ (p - 1)))"
    using b by simp_all
  then have "- (2 ^ p) \<le> round_even m" "round_even m \<le> - (2 ^ (p - 1))"
    using round_even_ge [of "- (2 ^ p)" m] round_even_le [of m "- (2 ^ (p - 1))"] by blast+
  then have "real_of_int (- (2 ^ p)) \<le> real_of_int (round_even m)"
      "real_of_int (round_even m) \<le> real_of_int (- (2 ^ (p - 1)))"
    by (simp_all only: of_int_le_iff)
  then have a: "- (2 ^ p) \<le> real_of_int (round_even m)"
      "real_of_int (round_even m) \<le> - (2 ^ (p - 1))"
    by simp_all
  have s0: "0 \<le> s" using s by simp
  have "(- (2 ^ p)) * s \<le> real_of_int (round_even m) * s"
    by (rule mult_right_mono [OF a(1) s0])
  moreover have "real_of_int (round_even m) * s \<le> (- (2 ^ (p - 1))) * s"
    by (rule mult_right_mono [OF a(2) s0])
  ultimately have i: "- (2 ^ p * s) \<le> round_to p v" "round_to p v \<le> - (2 ^ (p - 1) * s)"
    unfolding r by simp_all
  have "real_of_int (binade v) = real (p - 1) + real_of_int (binade v - int p + 1)"
    using assms(2) by simp
  then have "2 powr real_of_int (binade v) = 2 powr real (p - 1) * s"
    unfolding s_def by (simp only: powr_add)
  then have lo: "2 powr real_of_int (binade v) = 2 ^ (p - 1) * s"
    by (simp add: powr_realpow)
  have "real_of_int (binade v + 1) = real p + real_of_int (binade v - int p + 1)"
    by simp
  then have "2 powr real_of_int (binade v + 1) = 2 powr real p * s"
    unfolding s_def by (simp only: powr_add)
  then have hi: "2 powr real_of_int (binade v + 1) = 2 ^ p * s"
    by (simp add: powr_realpow)
  show "- (2 powr real_of_int (binade v + 1)) \<le> round_to p v"
    and "round_to p v \<le> - (2 powr real_of_int (binade v))"
    unfolding lo hi using i by simp_all
qed

lemma binade_mono: "0 < \<bar>v\<bar> \<Longrightarrow> \<bar>v\<bar> \<le> \<bar>w\<bar> \<Longrightarrow> binade v \<le> binade w"
  unfolding binade_def by (intro floor_mono) simp

lemma round_to_same_binade:
  assumes "v \<le> w" and "v \<noteq> 0" and "w \<noteq> 0" and "binade v = binade w"
  shows "round_to p v \<le> round_to p w"
proof -
  define s where "s = 2 powr real_of_int (binade w - int p + 1)"
  have s: "0 < s" by (simp add: s_def)
  have "v / s \<le> w / s"
    using assms(1) s by (simp add: divide_right_mono)
  then have "round_even (v / s) \<le> round_even (w / s)"
    by (rule round_even_mono)
  then have "real_of_int (round_even (v / s)) \<le> real_of_int (round_even (w / s))"
    by (simp only: of_int_le_iff)
  then have "real_of_int (round_even (v / s)) * s \<le> real_of_int (round_even (w / s)) * s"
    using s by (intro mult_right_mono) simp_all
  then show ?thesis
    using assms(2,3,4) by (simp add: round_to_def Let_def s_def)
qed

lemma powr2_mono: "a \<le> b \<Longrightarrow> 2 powr real_of_int a \<le> 2 powr real_of_int b"
  by simp

lemma round_to_mono:
  assumes "v \<le> w" and "1 \<le> p"
  shows "round_to p v \<le> round_to p w"
proof -
  have sgn_neg: "round_to p x \<le> 0" if "x \<le> 0" for x
  proof (cases "x = 0")
    case True
    then show ?thesis by (simp add: round_to_def)
  next
    case False
    with that have "x < 0" by simp
    from round_to_neg(2) [OF this assms(2)] show ?thesis
      using scale_pos [of "binade x"] by linarith
  qed
  have sgn_pos: "0 \<le> round_to p x" if "0 \<le> x" for x
  proof (cases "x = 0")
    case True
    then show ?thesis by (simp add: round_to_def)
  next
    case False
    with that have "0 < x" by simp
    from round_to_pos(1) [OF this assms(2)] show ?thesis
      using scale_pos [of "binade x"] by linarith
  qed
  consider "v \<le> 0" "0 \<le> w" | "0 < v" | "w < 0"
    using assms(1) by linarith
  then show ?thesis
  proof cases
    case 1
    then show ?thesis using sgn_neg [of v] sgn_pos [of w] by linarith
  next
    case 2
    then have w: "0 < w" using assms(1) by linarith
    have "binade v \<le> binade w"
      using 2 w assms(1) by (intro binade_mono) simp_all
    then consider "binade v = binade w" | "binade v + 1 \<le> binade w"
      by linarith
    then show ?thesis
    proof cases
      case 1
      with 2 w show ?thesis
        using assms(1) by (intro round_to_same_binade) simp_all
    next
      case 2
      note gap = powr2_mono [OF 2]
      from round_to_pos(2) [OF \<open>0 < v\<close> assms(2)] round_to_pos(1) [OF w assms(2)] gap
      show ?thesis by linarith
    qed
  next
    case 3
    then have v: "v < 0" using assms(1) by linarith
    have "binade w \<le> binade v"
      using 3 v assms(1) by (intro binade_mono) simp_all
    then consider "binade v = binade w" | "binade w + 1 \<le> binade v"
      by linarith
    then show ?thesis
    proof cases
      case 1
      with 3 v show ?thesis
        using assms(1) by (intro round_to_same_binade) simp_all
    next
      case 2
      note gap = powr2_mono [OF 2]
      from round_to_neg(2) [OF v assms(2)] round_to_neg(1) [OF \<open>w < 0\<close> assms(2)] gap
      show ?thesis by linarith
    qed
  qed
qed

text \<open>The binary platform meets the assumptions.\<close>

lemma rounding_round_to:
  assumes "24 \<le> p"
  shows "rounding (1 / 2 ^ p) (round_to p)"
proof -
  have p1: "1 \<le> p" using assms by simp
  have "round_to p (real_of_int i) = real_of_int i" if "\<bar>i\<bar> \<le> 2 ^ 23" for i
    using that assms by (intro round_to_int [of i 23 p]) simp_all
  moreover have "\<bar>round_to p v - v\<bar> \<le> 1 / 2 ^ p * \<bar>v\<bar> + 1 / 2 ^ p / 2 ^ 100" for v
  proof -
    have "\<bar>round_to p v - v\<bar> \<le> \<bar>v\<bar> / 2 ^ p"
      by (rule round_to_error [OF p1])
    moreover have "(0::real) \<le> 1 / 2 ^ p / 2 ^ 100" by simp
    moreover have "1 / 2 ^ p * \<bar>v\<bar> = \<bar>v\<bar> / 2 ^ p" by simp
    ultimately show ?thesis by linarith
  qed
  ultimately show ?thesis
    unfolding rounding_def using round_to_mono [OF _ p1] by blast
qed

lemma ieee_like_binary: "ieee_like binary_platform"
proof -
  have D: "rounding (1 / 2 ^ 53) (round_to 53)" and F: "rounding (1 / 2 ^ 24) (round_to 24)"
    by (rule rounding_round_to, simp)+
  have near: "\<bar>round_to 53 t - t\<bar> \<le> 1 / 2 ^ 30" if "\<bar>t\<bar> \<le> 1" for t
  proof -
    have "\<bar>round_to 53 t - t\<bar> \<le> \<bar>t\<bar> / 2 ^ 53"
      by (rule round_to_error) simp
    also have "\<dots> \<le> 1 / 2 ^ 53"
      using that by (simp add: divide_right_mono)
    also have "\<dots> \<le> 1 / 2 ^ 30"
      by simp
    finally show ?thesis .
  qed
  have "round_to 53 1 = 1"
    using rounding_int [OF D, of 1] by simp
  then have one: "round_to 53 (cos 0) = 1"
    by simp
  have zero: "round_to 53 (sin 0) = 0"
    by (simp add: round_to_def)
  have sel: "to_float binary_platform = round_to 24" "to_double binary_platform = round_to 53"
      "cos_d binary_platform = (\<lambda>v. round_to 53 (cos v))"
      "sin_d binary_platform = (\<lambda>v. round_to 53 (sin v))"
    by (simp_all add: binary_platform_def)
  show ?thesis
    unfolding ieee_like_def sel
    using D F near [OF abs_cos_le_one] near [OF abs_sin_le_one] one zero by blast
qed

subsection \<open>Conversions and ranges\<close>

lemma c_trunc_nonneg: "0 \<le> v \<Longrightarrow> c_trunc v = \<lfloor>v\<rfloor>"
  by (simp add: c_trunc_def)

lemma c_trunc_error: "\<bar>real_of_int (c_trunc v) - v\<bar> < 1"
  unfolding c_trunc_def by (cases "0 \<le> v") (simp_all, linarith+)

lemma c_trunc_small:
  assumes "\<bar>v\<bar> < 1"
  shows "c_trunc v = 0"
proof (cases "0 \<le> v")
  case True
  then have "\<lfloor>v\<rfloor> = 0" using assms by (intro floor_unique) simp_all
  with True show ?thesis by (simp add: c_trunc_def)
next
  case False
  then have "\<lceil>v\<rceil> = 0" using assms by (intro ceiling_unique) simp_all
  with False show ?thesis by (simp add: c_trunc_def)
qed

lemma float_to_uint32_between:
  assumes "real n \<le> v" and "v < real n + 1" and "n < 2 ^ 32"
  shows "float_to_uint32 v = Some (of_nat n)"
proof -
  have "\<lfloor>v\<rfloor> = int n"
    using assms(1,2) by (simp add: floor_unique)
  moreover have "v < 2 ^ 32"
  proof -
    have "n + 1 \<le> 2 ^ 32"
      using assms(3) by simp
    then have "real (n + 1) \<le> real (2 ^ 32)"
      by (simp only: of_nat_le_iff)
    then have "real n + 1 \<le> 2 ^ 32"
      by simp
    with assms(2) show ?thesis by linarith
  qed
  moreover have "0 \<le> v" using assms(1) of_nat_0_le_iff [of n, where ?'a = real] by linarith
  ultimately show ?thesis
    by (simp add: float_to_uint32_def c_trunc_nonneg)
qed

lemma double_to_int_Some:
  assumes "\<bar>v\<bar> \<le> 1000000000"
  shows "double_to_int v = Some (c_trunc v)"
proof -
  have "- (2 ^ 31) - 1 < v \<and> v < 2 ^ 31"
    using assms by simp linarith
  then show ?thesis by (simp add: double_to_int_def)
qed

lemma double_to_int_between:
  assumes "real_of_int i \<le> v" and "v < real_of_int i + 1" and "0 \<le> i" and "i \<le> 1000000"
  shows "double_to_int v = Some i"
proof -
  have "\<lfloor>v\<rfloor> = i" using assms(1,2) by (intro floor_unique) simp_all
  moreover have "0 \<le> v" "\<bar>v\<bar> \<le> 1000000000" using assms by linarith+
  ultimately show ?thesis
    by (simp add: double_to_int_Some c_trunc_nonneg)
qed

lemma unat16_less: "unat (w :: 16 word) < 65536"
  using unsigned_less [of w, where ?'a = nat] by simp

lemma real_unat16_le: "real (unat (w :: 16 word)) \<le> 65535"
proof -
  have "unat w \<le> 65535" using unat16_less [of w] by simp
  then have "real (unat w) \<le> real 65535" by (simp only: of_nat_le_iff)
  then show ?thesis by simp
qed

lemma min_dimension:
  "0 \<le> real (min (unat (a :: 16 word)) (unat (b :: 16 word)))"
  "real (min (unat (a :: 16 word)) (unat (b :: 16 word))) \<le> 65535"
proof -
  show "0 \<le> real (min (unat a) (unat b))" by (rule of_nat_0_le_iff)
  have "min (unat a) (unat b) \<le> 65535" using unat16_less [of a] by simp
  then have "real (min (unat a) (unat b)) \<le> real 65535" by (simp only: of_nat_le_iff)
  then show "real (min (unat a) (unat b)) \<le> 65535" by simp
qed

lemma abs_mult_le:
  fixes a b :: real
  assumes "\<bar>a\<bar> \<le> A" and "\<bar>b\<bar> \<le> B"
  shows "\<bar>a * b\<bar> \<le> A * B"
  unfolding abs_mult using assms by (intro mult_mono) simp_all

subsection \<open>The tick increment\<close>

lemma tick_increment_floor:
  assumes pf: "ieee_like pf" and t: "portTICK_RATE_MS pf = 1" and r0: "FrameRate st \<noteq> 0"
  shows "tick_increment pf st = Some (of_nat (1000 div unat (FrameRate st)))"
proof -
  define r where "r = unat (FrameRate st)"
  define n where "n = 1000 div r"
  define w where "w = 1 / real r"
  define q where "q = 1000 / real r"
  have F: "rounding (1 / 2 ^ 24) (to_float pf)" and D: "rounding (1 / 2 ^ 53) (to_double pf)"
    using pf by (simp_all add: ieee_like_def)
  have r1: "1 \<le> r" using r0 unfolding r_def by (simp add: Suc_le_eq unat_gt_0)
  have r2: "r < 65536" unfolding r_def by (rule unat16_less)
  have w1: "1 / 65536 \<le> w" "w \<le> 1"
    unfolding w_def using r1 r2 by (simp_all add: field_simps)
  have qw: "q = 1000 * w" by (simp add: q_def w_def)
  have n1000: "n \<le> 1000" unfolding n_def by (simp add: div_le_dividend)
  have "1000 mod r + 1 \<le> r"
    using r1 by (simp add: Suc_leI)
  then have "real (1000 mod r + 1) \<le> real r"
    by (simp only: of_nat_le_iff)
  then have "real (1000 mod r) \<le> real r - 1"
    by simp
  moreover have "real 1000 = real n * real r + real (1000 mod r)"
    unfolding n_def by (metis div_mult_mod_eq of_nat_add of_nat_mult)
  ultimately have b: "1000 \<le> real n * real r + real r - 1" "real n * real r \<le> 1000"
    by simp_all
  have w0: "0 \<le> w" using w1 by linarith
  have "1000 * w \<le> (real n * real r + real r - 1) * w"
    by (rule mult_right_mono [OF b(1) w0])
  moreover have "real n * real r * w \<le> 1000 * w"
    by (rule mult_right_mono [OF b(2) w0])
  moreover have "real r * w = 1" using r1 by (simp add: w_def)
  then have "real n * real r * w = real n" "(real n * real r + real r - 1) * w = real n + 1 - w"
    by (simp_all add: algebra_simps)
  ultimately have qn: "real n \<le> q" "q \<le> real n + 1 - w"
    unfolding qw by simp_all
  have q0: "0 \<le> q" "q \<le> 1000" using qn(1) w1 qw by linarith+
  define x1 where "x1 = to_double pf q"
  define x2 where "x2 = to_float pf x1"
  define x3 where "x3 = to_float pf x2"
  have l1: "real n \<le> x1"
    using rounding_mono [OF D qn(1)] rounding_nat [OF D, of n] n1000 by (simp add: x1_def)
  have l2: "real n \<le> x2"
    using rounding_mono [OF F l1] rounding_nat [OF F, of n] n1000 by (simp add: x2_def)
  have l3: "real n \<le> x3"
    using rounding_mono [OF F l2] rounding_nat [OF F, of n] n1000 by (simp add: x3_def)
  have e1: "\<bar>x1 - q\<bar> \<le> \<bar>q\<bar> / 9007199254740992 + 1 / 1000000000000000000000000000000"
    unfolding x1_def using q0 by (intro double_error [OF pf]) linarith
  have n0: "0 \<le> real n" by simp
  have u1: "x1 \<le> 1001" using e1 q0 by linarith
  have p1: "0 \<le> x1" using l1 n0 by linarith
  have e2: "\<bar>x2 - x1\<bar> \<le> \<bar>x1\<bar> / 16777216 + 1 / 1000000000000000000000000000000"
    unfolding x2_def using u1 p1 by (intro float_error [OF pf]) linarith
  have u2: "x2 \<le> 1002" using e2 u1 p1 by linarith
  have p2: "0 \<le> x2" using l2 n0 by linarith
  have e3: "\<bar>x3 - x2\<bar> \<le> \<bar>x2\<bar> / 16777216 + 1 / 1000000000000000000000000000000"
    unfolding x3_def using u2 p2 by (intro float_error [OF pf]) linarith
  have "x3 < real n + 1"
    using e1 e2 e3 q0 u1 u2 p1 p2 qn(2) qw w1 by linarith
  with l3 have "float_to_uint32 x3 = Some (of_nat n)"
    using n1000 by (intro float_to_uint32_between) simp_all
  moreover have "to_float pf (real (unat (portTICK_RATE_MS pf))) = 1"
    using rounding_nat [OF F, of 1] by (simp add: t)
  ultimately show ?thesis
    using r0 t by (simp add: tick_increment_def x1_def x2_def x3_def q_def r_def n_def)
qed

lemma binary_tick: "portTICK_RATE_MS binary_platform = 1"
  by (simp add: binary_platform_def)

lemma tick_increment_vga30: "tick_increment binary_platform vga30 = Some 33"
  using tick_increment_floor [OF ieee_like_binary binary_tick, of vga30] by (simp add: vga30_def)

subsection \<open>Bounds for pi\<close>

text \<open>
  Bounds for \<open>pi\<close>, from the Maclaurin series of the sine with 18 terms: the sine is
  positive at 3.14159 and negative at 3.1416.
\<close>

lemma sum_18: "(\<Sum>m<18. f m) = f 0 + f 1 + f 2 + f 3 + f 4 + f 5 + f 6 + f 7 + f 8 + f 9
    + f 10 + f 11 + f 12 + f 13 + f 14 + f 15 + f 16 + (f 17 :: real)" for f :: "nat \<Rightarrow> real"
  by (simp add: lessThan_nat_numeral lessThan_Suc)

lemma sin_poly_18:
  "(\<Sum>m<18. sin_coeff m * x ^ m) =
     x - x^3 / 6 + x^5 / 120 - x^7 / 5040 + x^9 / 362880 - x^11 / 39916800
       + x^13 / 6227020800 - x^15 / 1307674368000 + x^17 / 355687428096000" for x :: real
  unfolding sum_18 by (simp add: sin_coeff_def fact_numeral)

lemma sin_near:
  fixes x :: real
  shows "\<bar>sin x - (x - x^3 / 6 + x^5 / 120 - x^7 / 5040 + x^9 / 362880 - x^11 / 39916800
       + x^13 / 6227020800 - x^15 / 1307674368000 + x^17 / 355687428096000)\<bar>
     \<le> \<bar>x\<bar> ^ 18 / 6402373705728000"
proof -
  have "\<bar>sin x - (\<Sum>m<18. sin_coeff m * x ^ m)\<bar> \<le> inverse (fact 18) * \<bar>x\<bar> ^ 18"
    by (rule Maclaurin_sin_bound)
  moreover have "fact 18 = (6402373705728000::real)"
    by (simp add: fact_numeral)
  ultimately show ?thesis
    unfolding sin_poly_18 by (simp only: inverse_eq_divide times_divide_eq_left mult_1)
qed

lemma sin_lower: "0 < sin (314159 / 100000 :: real)"
proof -
  define x :: real where "x = 314159 / 100000"
  define p where "p = x - x^3 / 6 + x^5 / 120 - x^7 / 5040 + x^9 / 362880 - x^11 / 39916800
       + x^13 / 6227020800 - x^15 / 1307674368000 + x^17 / 355687428096000"
  define b where "b = \<bar>x\<bar> ^ 18 / 6402373705728000"
  have "\<bar>sin x - p\<bar> \<le> b"
    unfolding p_def b_def by (rule sin_near)
  moreover have "b < p"
    unfolding p_def b_def x_def by (simp add: power_divide)
  ultimately have "0 < sin x" by linarith
  then show ?thesis by (simp add: x_def)
qed

lemma sin_upper: "sin (31416 / 10000 :: real) < 0"
proof -
  define x :: real where "x = 31416 / 10000"
  define p where "p = x - x^3 / 6 + x^5 / 120 - x^7 / 5040 + x^9 / 362880 - x^11 / 39916800
       + x^13 / 6227020800 - x^15 / 1307674368000 + x^17 / 355687428096000"
  define b where "b = \<bar>x\<bar> ^ 18 / 6402373705728000"
  have "\<bar>sin x - p\<bar> \<le> b"
    unfolding p_def b_def by (rule sin_near)
  moreover have "p < - b"
    unfolding p_def b_def x_def by (simp add: power_divide)
  ultimately have "sin x < 0" by linarith
  then show ?thesis by (simp add: x_def)
qed

lemma pi_lower: "314159 / 100000 < pi"
proof (rule ccontr)
  assume "\<not> 314159 / 100000 < pi"
  then have "pi \<le> 314159 / 100000" by simp
  moreover have "(314159 / 100000 :: real) < 2 * pi" using pi_ge_two by simp
  ultimately have "sin (314159 / 100000 :: real) \<le> 0" by (rule sin_le_zero)
  with sin_lower show False by simp
qed

lemma pi_upper: "pi < 31416 / 10000"
proof (rule ccontr)
  assume "\<not> pi < 31416 / 10000"
  then have "31416 / 10000 \<le> pi" by simp
  moreover have "(0::real) \<le> 31416 / 10000" by simp
  ultimately have "0 \<le> sin (31416 / 10000 :: real)" by (intro sin_ge_zero)
  with sin_upper show False by simp
qed

lemma cos_near_half_pi:
  fixes a :: real
  assumes "\<bar>a - 31415926535897932 / 10 ^ 16 / 2\<bar> \<le> 1 / 10 ^ 9"
  shows "\<bar>cos a\<bar> \<le> 1 / 100000"
proof -
  define L :: real where "L = 31415926535897932 / 10 ^ 16"
  have l: "314159 / 100000 < L" "L < 31416 / 10000"
    by (simp_all add: L_def)
  have "\<bar>a - L / 2\<bar> \<le> 1 / 1000000000"
    using assms by (simp add: L_def)
  then have "\<bar>pi / 2 - a\<bar> \<le> 1 / 100000"
    using pi_lower pi_upper l by linarith
  moreover have "\<bar>cos a\<bar> \<le> \<bar>pi / 2 - a\<bar>"
    using abs_sin_x_le_abs_x [of "pi / 2 - a"] by (simp add: cos_sin_eq [of a])
  ultimately show ?thesis by linarith
qed

lemma sqrt2_less: "sqrt 2 < 142 / 100"
  by (rule real_less_lsqrt) (simp_all add: power2_eq_square)

subsection \<open>Bounds for the overlay geometry\<close>

text \<open>
  The centre: its \<open>y\<close> is the truncation of the sum as computed, a value that the
  roundings keep within 1/100 of the exact sum.
\<close>

lemma horizon_center_value:
  assumes pf: "ieee_like pf" and p: "\<bar>Pitch att\<bar> \<le> 60"
  shows "\<exists>v. horizon_center pf st att = Some (int (unat (FrameDimensions_X st) div 2), c_trunc v)
     \<and> \<bar>v - (real (unat (FrameDimensions_Y st) div 2)
             + Pitch att * real (unat (FrameDimensions_Y st)) / 60)\<bar> \<le> 1 / 100
     \<and> \<bar>v\<bar> \<le> 99999"
proof -
  define Y where "Y = unat (FrameDimensions_Y st)"
  define a where "a = real (Y div 2)"
  define t where "t = Pitch att * real Y"
  define t1 where "t1 = to_float pf t"
  define t2 where "t2 = to_double pf (t1 / 60)"
  define z where "z = a + t2"
  define s where "s = to_double pf z"
  have Y: "real Y \<le> 65535"
    unfolding Y_def by (rule real_unat16_le)
  have a: "0 \<le> a" "a \<le> 32768"
  proof -
    show "0 \<le> a" by (simp add: a_def)
    have "Y div 2 \<le> 32768"
      using unat16_less [of "FrameDimensions_Y st"] by (simp add: Y_def)
    then have "real (Y div 2) \<le> real 32768" by (simp only: of_nat_le_iff)
    then show "a \<le> 32768" unfolding a_def by simp
  qed
  have "\<bar>t\<bar> \<le> 60 * 65535"
    unfolding t_def using p Y by (intro abs_mult_le) simp_all
  then have t: "\<bar>t\<bar> \<le> 3932100" by simp
  have e1: "\<bar>t1 - t\<bar> \<le> \<bar>t\<bar> / 16777216 + 1 / 1000000000000000000000000000000"
    unfolding t1_def using t by (intro float_error [OF pf]) linarith
  have b1: "\<bar>t1\<bar> \<le> 3932101" using e1 t by linarith
  have d1: "\<bar>t1 / 60 - t / 60\<bar> \<le> 1 / 200" using e1 t by linarith
  have b1': "\<bar>t1 / 60\<bar> \<le> 65536" using b1 by linarith
  have e2: "\<bar>t2 - t1 / 60\<bar> \<le> \<bar>t1 / 60\<bar> / 9007199254740992 + 1 / 1000000000000000000000000000000"
    unfolding t2_def using b1' by (intro double_error [OF pf]) linarith
  have d2: "\<bar>t2 - t1 / 60\<bar> \<le> 1 / 1000000" using e2 b1' by linarith
  have b2: "\<bar>z\<bar> \<le> 99000" unfolding z_def using d2 b1' a by linarith
  have e3: "\<bar>s - z\<bar> \<le> \<bar>z\<bar> / 9007199254740992 + 1 / 1000000000000000000000000000000"
    unfolding s_def using b2 by (intro double_error [OF pf]) linarith
  have d3: "\<bar>s - z\<bar> \<le> 1 / 1000000" using e3 b2 by linarith
  have b3: "\<bar>s\<bar> \<le> 99999" using d3 b2 by linarith
  have close: "\<bar>s - (a + t / 60)\<bar> \<le> 1 / 100"
    using d1 d2 d3 unfolding z_def by linarith
  have "double_to_int s = Some (c_trunc s)"
    using b3 by (intro double_to_int_Some) linarith
  then have c: "horizon_center pf st att = Some (int (unat (FrameDimensions_X st) div 2), c_trunc s)"
    by (simp add: horizon_center_def Let_def s_def z_def t2_def t1_def t_def a_def Y_def)
  from c close b3 show ?thesis
    by (auto simp: a_def t_def Y_def)
qed

lemma horizon_center_close:
  assumes pf: "ieee_like pf" and p: "\<bar>Pitch att\<bar> \<le> 60"
  shows "\<exists>cy. horizon_center pf st att = Some (int (unat (FrameDimensions_X st) div 2), cy)
     \<and> \<bar>real_of_int cy
          - (real (unat (FrameDimensions_Y st) div 2)
             + Pitch att * real (unat (FrameDimensions_Y st)) / 60)\<bar> < 1 + 1 / 100
     \<and> \<bar>cy\<bar> \<le> 100000"
proof -
  define E where "E = real (unat (FrameDimensions_Y st) div 2)
             + Pitch att * real (unat (FrameDimensions_Y st)) / 60"
  from horizon_center_value [OF pf p, of st] obtain v where
    c: "horizon_center pf st att = Some (int (unat (FrameDimensions_X st) div 2), c_trunc v)"
    and e: "\<bar>v - E\<bar> \<le> 1 / 100" and b: "\<bar>v\<bar> \<le> 99999"
    unfolding E_def by blast
  have tr: "\<bar>real_of_int (c_trunc v) - v\<bar> < 1" by (rule c_trunc_error)
  have "\<bar>real_of_int (c_trunc v) - E\<bar> < 1 + 1 / 100"
    using tr e by linarith
  moreover have "\<bar>real_of_int (c_trunc v)\<bar> \<le> 100000"
    using tr b by linarith
  then have "\<bar>c_trunc v\<bar> \<le> 100000"
    by linarith
  ultimately show ?thesis
    using c unfolding E_def by blast
qed

lemma DEG2RAD_close:
  assumes pf: "ieee_like pf"
  shows "\<bar>DEG2RAD pf - 31415926535897932 / 10 ^ 16 / 180\<bar> \<le> 1 / 10 ^ 15"
proof -
  define l :: real where "l = 31415926535897932 / 10 ^ 16"
  define l1 where "l1 = to_double pf l"
  define d where "d = to_double pf (l1 / 180)"
  have l: "3 \<le> l" "l \<le> 4" by (simp_all add: l_def)
  have e1: "\<bar>l1 - l\<bar> \<le> \<bar>l\<bar> / 9007199254740992 + 1 / 1000000000000000000000000000000"
    unfolding l1_def using l by (intro double_error [OF pf]) linarith
  have b1: "\<bar>l1 / 180\<bar> \<le> 1" using e1 l by linarith
  have e2: "\<bar>d - l1 / 180\<bar> \<le> \<bar>l1 / 180\<bar> / 9007199254740992 + 1 / 1000000000000000000000000000000"
    unfolding d_def using b1 by (intro double_error [OF pf]) linarith
  have "\<bar>d - l / 180\<bar> \<le> 1 / 1000000000000000"
    using e1 e2 b1 l by linarith
  then show ?thesis
    by (simp add: DEG2RAD_def d_def l1_def l_def)
qed

lemma angle_close:
  assumes pf: "ieee_like pf" and r: "\<bar>r\<bar> \<le> 360"
  shows "\<bar>to_double pf (DEG2RAD pf * r) - 31415926535897932 / 10 ^ 16 / 180 * r\<bar> \<le> 1 / 10 ^ 11"
    and "\<bar>to_double pf (DEG2RAD pf * r)\<bar> \<le> 7"
proof -
  define k :: real where "k = 31415926535897932 / 10 ^ 16 / 180"
  define d where "d = DEG2RAD pf"
  define a where "a = to_double pf (d * r)"
  have k: "0 \<le> k" "k \<le> 18 / 1000" by (simp_all add: k_def)
  have dk: "\<bar>d - k\<bar> \<le> 1 / 1000000000000000"
    using DEG2RAD_close [OF pf] by (simp add: d_def k_def)
  have "\<bar>(d - k) * r\<bar> \<le> 1 / 1000000000000000 * 360"
    using dk r by (rule abs_mult_le)
  then have m1: "\<bar>d * r - k * r\<bar> \<le> 1 / 1000000000000" 
    by (simp add: algebra_simps)
  have "\<bar>k * r\<bar> \<le> 18 / 1000 * 360"
    using k r by (intro abs_mult_le) simp_all
  then have m2: "\<bar>k * r\<bar> \<le> 648 / 100" by simp
  have b: "\<bar>d * r\<bar> \<le> 65 / 10" using m1 m2 by linarith
  have e: "\<bar>a - d * r\<bar> \<le> \<bar>d * r\<bar> / 9007199254740992 + 1 / 1000000000000000000000000000000"
    unfolding a_def using b by (intro double_error [OF pf]) linarith
  have "\<bar>a - k * r\<bar> \<le> 1 / 100000000000" using e b m1 by linarith
  then show "\<bar>to_double pf (DEG2RAD pf * r) - 31415926535897932 / 10 ^ 16 / 180 * r\<bar> \<le> 1 / 10 ^ 11"
    unfolding a_def d_def k_def by simp
  show "\<bar>to_double pf (DEG2RAD pf * r)\<bar> \<le> 7"
    using e b unfolding a_def d_def by linarith
qed

lemma third_truncated:
  fixes pf :: platform and w W :: real
  assumes pf: "ieee_like pf" and w: "\<bar>w - W\<bar> \<le> 1 / 10000" and W: "\<bar>W\<bar> \<le> 65535"
  defines "v \<equiv> to_double pf (to_double pf w / 3)"
  shows "double_to_int v = Some (c_trunc v)"
    and "\<bar>real_of_int (c_trunc v) - W / 3\<bar> < 1 + 1 / 1000"
    and "\<bar>c_trunc v\<bar> \<le> 30000"
    and "\<bar>v - W / 3\<bar> \<le> 1 / 1000"
proof -
  define v1 where "v1 = to_double pf w"
  have bw: "\<bar>w\<bar> \<le> 65536" using w W by linarith
  have e1: "\<bar>v1 - w\<bar> \<le> \<bar>w\<bar> / 9007199254740992 + 1 / 1000000000000000000000000000000"
    unfolding v1_def using bw by (intro double_error [OF pf]) linarith
  have b1: "\<bar>v1 / 3\<bar> \<le> 21846" using e1 bw by linarith
  have d1: "\<bar>v1 / 3 - W / 3\<bar> \<le> 1 / 20000" using e1 bw w by linarith
  have e2: "\<bar>v - v1 / 3\<bar> \<le> \<bar>v1 / 3\<bar> / 9007199254740992 + 1 / 1000000000000000000000000000000"
    unfolding v_def v1_def [symmetric] using b1 by (intro double_error [OF pf]) linarith
  have d2: "\<bar>v - v1 / 3\<bar> \<le> 1 / 1000000" using e2 b1 by linarith
  show close: "\<bar>v - W / 3\<bar> \<le> 1 / 1000" using d1 d2 by linarith
  have bv: "\<bar>v\<bar> \<le> 21847" using d2 b1 by linarith
  show "double_to_int v = Some (c_trunc v)"
    using bv by (intro double_to_int_Some) linarith
  have tr: "\<bar>real_of_int (c_trunc v) - v\<bar> < 1" by (rule c_trunc_error)
  show "\<bar>real_of_int (c_trunc v) - W / 3\<bar> < 1 + 1 / 1000"
    using tr close by linarith
  have "\<bar>real_of_int (c_trunc v)\<bar> \<le> 30000"
    using tr bv by linarith
  then show "\<bar>c_trunc v\<bar> \<le> 30000" by linarith
qed

lemma horizon_offset_close:
  fixes pf :: platform and st :: SLAMSettingsData and att :: AttitudeActualData
  assumes pf: "ieee_like pf" and r: "\<bar>Roll att\<bar> \<le> 360"
  defines "m \<equiv> real (min (unat (FrameDimensions_X st)) (unat (FrameDimensions_Y st)))"
    and "angle \<equiv> to_double pf (DEG2RAD pf * Roll att)"
  shows "\<exists>ox oy. horizon_offset pf st att = Some (ox, oy)
     \<and> \<bar>real_of_int ox - m * cos angle / 3\<bar> < 1 + 1 / 1000
     \<and> \<bar>real_of_int oy + m * sin angle / 3\<bar> < 1 + 1 / 1000
     \<and> \<bar>ox\<bar> \<le> 30000 \<and> \<bar>oy\<bar> \<le> 30000"
proof -
  have m: "0 \<le> m" "m \<le> 65535"
    unfolding m_def by (rule min_dimension)+
  have a8: "\<bar>angle\<bar> \<le> 8"
    using angle_close(2) [OF pf r] by (simp add: angle_def)
  have c: "\<bar>cos_d pf angle - cos angle\<bar> \<le> 1 / 2 ^ 30"
    and s: "\<bar>sin_d pf angle - sin angle\<bar> \<le> 1 / 2 ^ 30"
    using pf a8 by (simp_all add: ieee_like_def)
  have ma: "\<bar>m\<bar> \<le> 65535" using m by simp
  have "\<bar>m * (cos_d pf angle - cos angle)\<bar> \<le> 65535 * (1 / 2 ^ 30)"
    using ma c by (rule abs_mult_le)
  then have wx: "\<bar>m * cos_d pf angle - m * cos angle\<bar> \<le> 1 / 10000"
    by (simp add: algebra_simps)
  have "\<bar>m * (sin_d pf angle - sin angle)\<bar> \<le> 65535 * (1 / 2 ^ 30)"
    using ma s by (rule abs_mult_le)
  then have wy0: "\<bar>m * sin_d pf angle - m * sin angle\<bar> \<le> 1 / 10000"
    by (simp add: algebra_simps)
  have "- m * sin_d pf angle - - (m * sin angle) = - (m * sin_d pf angle - m * sin angle)"
    by simp
  then have wy: "\<bar>- m * sin_d pf angle - - (m * sin angle)\<bar> \<le> 1 / 10000"
    using wy0 by (simp only: abs_minus)
  have "\<bar>m * cos angle\<bar> \<le> 65535 * 1"
    using ma by (intro abs_mult_le) simp_all
  then have Wx: "\<bar>m * cos angle\<bar> \<le> 65535" by simp
  have "\<bar>m * sin angle\<bar> \<le> 65535 * 1"
    using ma by (intro abs_mult_le) simp_all
  then have Wy: "\<bar>- (m * sin angle)\<bar> \<le> 65535" by simp
  note x = third_truncated [OF pf wx Wx]
  note y = third_truncated [OF pf wy Wy]
  let ?ox = "c_trunc (to_double pf (to_double pf (m * cos_d pf angle) / 3))"
  let ?oy = "c_trunc (to_double pf (to_double pf (- m * sin_d pf angle) / 3))"
  have "horizon_offset pf st att = Some (?ox, ?oy)"
    using x(1) y(1) by (simp add: horizon_offset_def Let_def m_def angle_def)
  moreover have "\<bar>real_of_int ?oy + m * sin angle / 3\<bar> < 1 + 1 / 1000"
    using y(2) by simp
  ultimately show ?thesis
    using x(2,3) y(3) by blast
qed

lemma horizon_ends_Some:
  assumes "\<bar>fst c\<bar> \<le> 100000" "\<bar>snd c\<bar> \<le> 100000" "\<bar>fst off\<bar> \<le> 30000" "\<bar>snd off\<bar> \<le> 30000"
  shows "horizon_ends c off =
     Some ((fst c - fst off, snd c - snd off), (fst off + fst c, snd off + snd c))"
proof -
  have "in_int_range (fst c - fst off)" "in_int_range (snd c - snd off)"
    "in_int_range (fst off + fst c)" "in_int_range (snd off + snd c)"
    using assms unfolding in_int_range_def by (simp_all, linarith+)
  then show ?thesis
    by (simp add: horizon_ends_def int_add_def int_sub_def)
qed

lemma horizon_line_parts:
  assumes "horizon_line pf st att = Some (left, right)"
  shows "\<exists>c off. horizon_center pf st att = Some c \<and> horizon_offset pf st att = Some off
     \<and> left = (fst c - fst off, snd c - snd off)
     \<and> right = (fst off + fst c, snd off + snd c)"
  using assms
  by (auto simp: horizon_line_def horizon_ends_def int_add_def int_sub_def
      split: option.splits if_splits)

lemma horizon_line_defined:
  assumes pf: "ieee_like pf" and p: "\<bar>Pitch att\<bar> \<le> 60" and r: "\<bar>Roll att\<bar> \<le> 360"
  shows "\<exists>c off. horizon_center pf st att = Some c \<and> horizon_offset pf st att = Some off
     \<and> horizon_line pf st att =
          Some ((fst c - fst off, snd c - snd off), (fst off + fst c, snd off + snd c))"
proof -
  from horizon_center_close [OF pf p, of st] obtain cy where
    c: "horizon_center pf st att = Some (int (unat (FrameDimensions_X st) div 2), cy)"
    and cy: "\<bar>cy\<bar> \<le> 100000"
    by blast
  from horizon_offset_close [OF pf r, of st] obtain ox oy where
    off: "horizon_offset pf st att = Some (ox, oy)" and o: "\<bar>ox\<bar> \<le> 30000" "\<bar>oy\<bar> \<le> 30000"
    by blast
  have "unat (FrameDimensions_X st) div 2 \<le> 100000"
    using unat16_less [of "FrameDimensions_X st"] by simp
  then have cx: "\<bar>int (unat (FrameDimensions_X st) div 2)\<bar> \<le> 100000"
    by simp
  have "horizon_ends (int (unat (FrameDimensions_X st) div 2), cy) (ox, oy) =
     Some ((int (unat (FrameDimensions_X st) div 2) - ox, cy - oy),
           (ox + int (unat (FrameDimensions_X st) div 2), oy + cy))"
    using horizon_ends_Some [of "(int (unat (FrameDimensions_X st) div 2), cy)" "(ox, oy)"] cx cy o
    by simp
  then show ?thesis
    using c off by (simp add: horizon_line_def)
qed

lemma offset_magnitude:
  fixes ox oy m a :: real
  assumes x: "\<bar>ox - m * cos a / 3\<bar> < 1 + 1 / 1000"
    and y: "\<bar>oy + m * sin a / 3\<bar> < 1 + 1 / 1000" and m: "0 \<le> m"
  shows "\<bar>sqrt (ox\<^sup>2 + oy\<^sup>2) - m / 3\<bar> < 3 / 2"
proof -
  define A where "A = m * cos a / 3"
  define B where "B = - (m * sin a / 3)"
  define ex where "ex = ox - A"
  define ey where "ey = oy - B"
  have "A\<^sup>2 + B\<^sup>2 = (m / 3)\<^sup>2 * (cos a)\<^sup>2 + (m / 3)\<^sup>2 * (sin a)\<^sup>2"
    by (simp add: A_def B_def power_mult_distrib power_divide)
  also have "\<dots> = (m / 3)\<^sup>2 * ((cos a)\<^sup>2 + (sin a)\<^sup>2)"
    by (simp only: distrib_left)
  finally have "A\<^sup>2 + B\<^sup>2 = (m / 3)\<^sup>2"
    by simp
  then have AB: "sqrt (A\<^sup>2 + B\<^sup>2) = m / 3"
    using m by simp
  have u: "(3 / 2) / sqrt 2 > 1 + 1 / 1000"
    using sqrt2_less by (simp add: field_simps)
  have "\<bar>ex\<bar> < (3 / 2) / sqrt 2" "\<bar>ey\<bar> < (3 / 2) / sqrt 2"
    using x y u by (simp_all add: ex_def ey_def A_def B_def)
  then have e: "sqrt (ex\<^sup>2 + ey\<^sup>2) < 3 / 2"
    by (rule real_sqrt_sum_squares_less)
  have "sqrt ((A + ex)\<^sup>2 + (B + ey)\<^sup>2) \<le> sqrt (A\<^sup>2 + B\<^sup>2) + sqrt (ex\<^sup>2 + ey\<^sup>2)"
    by (rule real_sqrt_sum_squares_triangle_ineq)
  then have up: "sqrt (ox\<^sup>2 + oy\<^sup>2) \<le> m / 3 + sqrt (ex\<^sup>2 + ey\<^sup>2)"
    by (simp add: ex_def ey_def AB)
  have "sqrt ((ox + - ex)\<^sup>2 + (oy + - ey)\<^sup>2) \<le> sqrt (ox\<^sup>2 + oy\<^sup>2) + sqrt ((- ex)\<^sup>2 + (- ey)\<^sup>2)"
    by (rule real_sqrt_sum_squares_triangle_ineq)
  moreover have "ox + - ex = A" "oy + - ey = B"
    by (simp_all add: ex_def ey_def)
  ultimately have lo: "m / 3 \<le> sqrt (ox\<^sup>2 + oy\<^sup>2) + sqrt (ex\<^sup>2 + ey\<^sup>2)"
    by (simp only: AB power2_minus)
  from up lo e show ?thesis by linarith
qed

lemma horizon_offset_level:
  assumes pf: "ieee_like pf" and r: "Roll att = 0" and off: "horizon_offset pf st att = Some off"
  shows "snd off = 0"
proof -
  have "sin_d pf 0 = 0" using pf by (simp add: ieee_like_def)
  then have "double_to_int (to_double pf (to_double pf
      (- real (min (unat (FrameDimensions_X st)) (unat (FrameDimensions_Y st)))
         * sin_d pf (to_double pf (DEG2RAD pf * Roll att))) / 3)) = Some 0"
    by (simp add: r double_zero [OF pf] double_to_int_def c_trunc_def)
  with off show ?thesis
    by (auto simp: horizon_offset_def Let_def split: option.splits)
qed

lemma horizon_offset_on_edge:
  assumes pf: "ieee_like pf" and r: "Roll att = 90" and off: "horizon_offset pf st att = Some off"
  shows "fst off = 0"
proof -
  define m where "m = real (min (unat (FrameDimensions_X st)) (unat (FrameDimensions_Y st)))"
  define a where "a = to_double pf (DEG2RAD pf * 90)"
  define w where "w = m * cos_d pf a"
  define v where "v = to_double pf (to_double pf w / 3)"
  have m: "\<bar>m\<bar> \<le> 65535"
    using min_dimension [of "FrameDimensions_X st" "FrameDimensions_Y st"] by (simp add: m_def)
  have r90: "\<bar>90 :: real\<bar> \<le> 360" by simp
  have "\<bar>a - 31415926535897932 / 10 ^ 16 / 180 * 90\<bar> \<le> 1 / 10 ^ 11"
    unfolding a_def by (rule angle_close(1) [OF pf r90])
  then have "\<bar>a - 31415926535897932 / 10 ^ 16 / 2\<bar> \<le> 1 / 10 ^ 9"
    by simp
  then have c: "\<bar>cos a\<bar> \<le> 1 / 100000"
    by (rule cos_near_half_pi)
  have "\<bar>a\<bar> \<le> 8"
    using angle_close(2) [OF pf r90] by (simp add: a_def)
  then have "\<bar>cos_d pf a - cos a\<bar> \<le> 1 / 2 ^ 30"
    using pf by (simp add: ieee_like_def)
  moreover have "1 / 2 ^ 30 \<le> (1 / 100000 :: real)"
    by simp
  ultimately have cd: "\<bar>cos_d pf a\<bar> \<le> 2 / 100000"
    using c by linarith
  have "\<bar>w\<bar> \<le> 65535 * (2 / 100000)"
    unfolding w_def using m cd by (rule abs_mult_le)
  then have w: "\<bar>w - 0\<bar> \<le> 2" by simp
  have "\<bar>v - 0 / 3\<bar> \<le> 1 / 1000 + 2 / 3"
  proof -
    define v1 where "v1 = to_double pf w"
    have bw: "\<bar>w\<bar> \<le> 2" using w by simp
    have e1: "\<bar>v1 - w\<bar> \<le> \<bar>w\<bar> / 9007199254740992 + 1 / 1000000000000000000000000000000"
      unfolding v1_def using bw by (intro double_error [OF pf]) linarith
    have b1: "\<bar>v1 / 3\<bar> \<le> 2 / 3 + 1 / 10000" using e1 bw by linarith
    have e2: "\<bar>v - v1 / 3\<bar> \<le> \<bar>v1 / 3\<bar> / 9007199254740992 + 1 / 1000000000000000000000000000000"
      unfolding v_def v1_def [symmetric] using b1 by (intro double_error [OF pf]) linarith
    show ?thesis using e2 b1 by linarith
  qed
  then have "\<bar>v\<bar> < 1" by simp
  then have v0: "c_trunc v = 0" by (rule c_trunc_small)
  have "\<bar>v\<bar> \<le> 1000000000"
    using \<open>\<bar>v\<bar> < 1\<close> by linarith
  then have "double_to_int v = Some 0"
    using v0 by (simp add: double_to_int_Some)
  with off show ?thesis
    by (auto simp: horizon_offset_def Let_def r v_def w_def a_def m_def split: option.splits)
qed

subsection \<open>Computations that do not depend on the rounding\<close>

text \<open>The centre for 640 by 480 and a pitch of 1/16, on every platform of this kind.\<close>

lemma horizon_center_nose_up:
  assumes pf: "ieee_like pf"
  shows "horizon_center pf vga30 nose_up = Some (320, 240)"
proof -
  define t2 where "t2 = to_double pf (1 / 2)"
  define z where "z = 240 + t2"
  define s where "s = to_double pf z"
  have t1: "to_float pf 30 = 30"
    using float_nat [OF pf, of 30] by simp
  have e2: "\<bar>t2 - 1 / 2\<bar> \<le> \<bar>1 / 2 :: real\<bar> / 9007199254740992 + 1 / 1000000000000000000000000000000"
    unfolding t2_def by (intro double_error [OF pf]) simp
  have b: "240 + 1 / 4 \<le> z" "z \<le> 240 + 3 / 4" unfolding z_def using e2 by linarith+
  have e3: "\<bar>s - z\<bar> \<le> \<bar>z\<bar> / 9007199254740992 + 1 / 1000000000000000000000000000000"
    unfolding s_def using b by (intro double_error [OF pf]) linarith
  have "240 \<le> s" "s < 241"
    using e3 b by linarith+
  then have "real_of_int 240 \<le> s" "s < real_of_int 240 + 1"
    by simp_all
  then have "double_to_int s = Some 240"
    by (rule double_to_int_between) simp_all
  then show ?thesis
    by (simp add: horizon_center_def vga30_def nose_up_def Let_def t1 s_def z_def t2_def)
qed

text \<open>The line for 100 by 100 in level flight, on every platform of this kind.\<close>

lemma horizon_line_square_level:
  assumes pf: "ieee_like pf"
  shows "horizon_center pf square100 level = Some (50, 50)"
    and "horizon_line pf square100 level = Some ((17, 50), (83, 50))"
proof -
  have z: "to_double pf 0 = 0" "to_float pf 0 = 0"
    using double_nat [OF pf, of 0] float_nat [OF pf, of 0] by simp_all
  have d50: "to_double pf 50 = 50" and d100: "to_double pf 100 = 100"
    using double_nat [OF pf, of 50] double_nat [OF pf, of 100] by simp_all
  have trig: "cos_d pf 0 = 1" "sin_d pf 0 = 0"
    using pf by (simp_all add: ieee_like_def)
  have i50: "double_to_int 50 = Some 50" and i0: "double_to_int 0 = Some 0"
    by (simp_all add: double_to_int_def c_trunc_def)
  show c: "horizon_center pf square100 level = Some (50, 50)"
    by (simp add: horizon_center_def square100_def level_def Let_def z d50 i50)
  define v where "v = to_double pf (100 / 3)"
  have e: "\<bar>v - 100 / 3\<bar> \<le> \<bar>100 / 3 :: real\<bar> / 9007199254740992 + 1 / 1000000000000000000000000000000"
    unfolding v_def by (intro double_error [OF pf]) simp
  have "33 \<le> v" "v < 34"
    using e by linarith+
  then have "real_of_int 33 \<le> v" "v < real_of_int 33 + 1"
    by simp_all
  then have "double_to_int v = Some 33"
    by (rule double_to_int_between) simp_all
  then have o: "horizon_offset pf square100 level = Some (33, 0)"
    by (simp add: horizon_offset_def square100_def level_def Let_def z trig d100 i0 v_def)
  show "horizon_line pf square100 level = Some ((17, 50), (83, 50))"
    by (simp add: horizon_line_def c o horizon_ends_def int_add_def int_sub_def in_int_range_def)
qed

text \<open>The line in level flight for 640 by 480 and for 320 by 240, on every such platform.\<close>

lemma horizon_line_level:
  assumes pf: "ieee_like pf"
  shows "horizon_line pf vga30 level = Some ((160, 240), (480, 240))"
    and "horizon_line pf qvga30 level = Some ((80, 120), (240, 120))"
proof -
  have z: "to_double pf 0 = 0" "to_float pf 0 = 0"
    using double_nat [OF pf, of 0] float_nat [OF pf, of 0] by simp_all
  have d: "to_double pf 480 = 480" "to_double pf 240 = 240" "to_double pf 160 = 160"
      "to_double pf 120 = 120" "to_double pf 80 = 80"
    using double_nat [OF pf, of 480] double_nat [OF pf, of 240] double_nat [OF pf, of 160]
      double_nat [OF pf, of 120] double_nat [OF pf, of 80]
    by simp_all
  have trig: "cos_d pf 0 = 1" "sin_d pf 0 = 0"
    using pf by (simp_all add: ieee_like_def)
  have i: "double_to_int 240 = Some 240" "double_to_int 160 = Some 160"
      "double_to_int 120 = Some 120" "double_to_int 80 = Some 80" "double_to_int 0 = Some 0"
    by (simp_all add: double_to_int_def c_trunc_def)
  show "horizon_line pf vga30 level = Some ((160, 240), (480, 240))"
    by (simp add: horizon_line_def horizon_center_def horizon_offset_def horizon_ends_def
        vga30_def level_def Let_def z d trig i int_add_def int_sub_def in_int_range_def)
  show "horizon_line pf qvga30 level = Some ((80, 120), (240, 120))"
    by (simp add: horizon_line_def horizon_center_def horizon_offset_def horizon_ends_def
        qvga30_def level_def Let_def z d trig i int_add_def int_sub_def in_int_range_def)
qed

section \<open>The claims about the SLAM task\<close>

subsection \<open>Claim C1: the frame counter and the delay requests\<close>

text \<open>
  Claim C1, as amended. Whenever the task has reached the state after \<open>N\<close> passes of
  the main loop (\<open>N = passes hs\<close>; the run \<open>hs\<close>, with all the values that the
  collaborators supply and any settings changes, is arbitrary), the start tick is the
  tick count read once before the loop, the increment is the one computed once from the
  settings at the start, and the frame counter is \<open>N\<close> modulo \<open>2 ^ 32\<close>: it is \<open>N\<close>, one
  more per pass and never reset, as long as \<open>N < 2 ^ 32\<close>. Every pass has made one delay
  request, and the requests depend on the start tick, the increment and the number of
  passes only: another run of the task from the same settings and start tick with as
  many passes makes the same requests, whatever the passes took and whatever else
  happened in either run.
\<close>

theorem slamTask_frame_counter:
  assumes "slamTask pf env writes hs st object = Some (Inr s')"
  shows "\<exists>inc. tick_increment pf st = Some inc
     \<and> increment s' = inc \<and> startTime s' = first_tick env
     \<and> unat (frame s') = passes hs mod 2 ^ 32
     \<and> (passes hs < 2 ^ 32 \<longrightarrow> unat (frame s') = passes hs)
     \<and> length (delay_requests (calls s')) = passes hs
     \<and> (\<forall>env2 writes2 hs2 object2 s2.
           slamTask pf env2 writes2 hs2 st object2 = Some (Inr s2)
           \<and> first_tick env2 = first_tick env \<and> passes hs2 = passes hs
           \<longrightarrow> delay_requests (calls s2) = delay_requests (calls s'))"
proof -
  from slamTask_Inr_increment [OF assms] obtain inc where inc: "tick_increment pf st = Some inc"
    by blast
  note t = slamTask_timing [OF assms inc]
  note q = slamTask_requests [OF assms inc]
  have u: "unat (frame s') = passes hs mod 2 ^ 32"
    by (simp add: t unat_of_nat)
  have l: "length (delay_requests (calls s')) = passes hs"
    by (simp add: q)
  have same: "delay_requests (calls s2) = delay_requests (calls s')"
    if "slamTask pf env2 writes2 hs2 st object2 = Some (Inr s2)"
      and "first_tick env2 = first_tick env" and "passes hs2 = passes hs"
    for env2 writes2 hs2 object2 s2
    using slamTask_requests [OF that(1) inc] that(2,3) by (simp add: q)
  from inc t(2,3) u l same show ?thesis
    by (intro exI [of _ inc]) (simp, blast)
qed

text \<open>
  Two runs of two passes from a start tick of 100 at 30 frames per second: one with
  short passes, one with long passes and a settings change in between.
\<close>

theorem slamTask_frame_counter_witness:
  "\<exists>s' s2. slamTask binary_platform no_video late_writer [Pass quiet_pass, Pass quiet_pass]
              vga30 level = Some (Inr s')
      \<and> slamTask binary_platform no_video late_writer
              [Pass slow_pass, Settings_changed qvga30, Pass slow_pass] vga30 level = Some (Inr s2)
      \<and> increment s' = 33 \<and> startTime s' = 100 \<and> unat (frame s') = 2
      \<and> length (delay_requests (calls s')) = 2
      \<and> delay_requests (calls s2) = delay_requests (calls s')"
proof -
  have w: "late_writer 2 = Some level"
    by (simp add: late_writer_def)
  have v: "video_open no_video = None"
    by (simp add: no_video_def)
  from slamTask_degraded [where writes = late_writer and d = 2, OF v tick_increment_vga30 w level_pitch]
  obtain s' where s': "slamTask binary_platform no_video late_writer
        [Pass quiet_pass, Pass quiet_pass] vga30 level = Some (Inr s')"
    by blast
  from slamTask_degraded [where writes = late_writer and d = 2, OF v tick_increment_vga30 w level_pitch]
  obtain s2 where s2: "slamTask binary_platform no_video late_writer
        [Pass slow_pass, Settings_changed qvga30, Pass slow_pass] vga30 level = Some (Inr s2)"
    by blast
  have p: "passes [Pass slow_pass, Settings_changed qvga30, Pass slow_pass]
      = passes [Pass quiet_pass, Pass quiet_pass]"
    by (simp add: passes_simps)
  from slamTask_frame_counter [OF s'] tick_increment_vga30
  have a: "increment s' = 33 \<and> startTime s' = 100 \<and> unat (frame s') = 2
      \<and> length (delay_requests (calls s')) = 2"
    by (simp add: passes_simps no_video_def)
  from slamTask_frame_counter [OF s'] s2 p
  have b: "delay_requests (calls s2) = delay_requests (calls s')"
    by blast
  from s' s2 a b show ?thesis by blast
qed

text \<open>
  Claim C1 as stated fails in two ways. First, \<^verbatim>\<open>frame\<close> is a \<^verbatim>\<open>uint32_t\<close>: after
  4294967296 passes it is 0 again. Second, in the first pass from a start tick of 100 with
  an increment of 33 the task calls \<^verbatim>\<open>vTaskDelayUntil\<close> with \<^verbatim>\<open>*pxPreviousWakeTime = 100\<close>
  and a second argument of 133, the absolute tick \<open>start + 1 * increment\<close>; the scheduler
  counts the second argument from the first, and releases the task at tick 233, not at
  133. The amended claim therefore makes no statement about the tick of release.
\<close>

theorem slamTask_schedule_counterexample:
  "(\<exists>s'. slamTask binary_platform no_video late_writer (replicate (2 ^ 32) (Pass quiet_pass))
            vga30 level = Some (Inr s')
      \<and> passes (replicate (2 ^ 32) (Pass quiet_pass)) = 4294967296
      \<and> frame s' = 0)
   \<and> (\<exists>s'. slamTask binary_platform no_video late_writer [Pass quiet_pass] vga30 level
            = Some (Inr s')
      \<and> startTime s' = 100 \<and> increment s' = 33
      \<and> delay_requests (calls s') = [(100, 133)]
      \<and> map release_tick (delay_requests (calls s')) = [233]
      \<and> startTime s' + 1 * increment s' = 133)"
proof -
  have w: "late_writer 2 = Some level"
    by (simp add: late_writer_def)
  have v: "video_open no_video = None"
    by (simp add: no_video_def)
  let ?hs = "replicate (2 ^ 32) (Pass quiet_pass)"
  from slamTask_degraded [where writes = late_writer and d = 2, OF v tick_increment_vga30 w level_pitch]
  obtain s' where s': "slamTask binary_platform no_video late_writer ?hs vga30 level
      = Some (Inr s')"
    by blast
  have "frame s' = of_nat (passes ?hs)"
    by (rule slamTask_timing [OF s' tick_increment_vga30])
  then have "frame s' = 0"
    by (simp add: passes_replicate)
  with s' have first: "\<exists>s'. slamTask binary_platform no_video late_writer ?hs vga30 level
        = Some (Inr s')
      \<and> passes ?hs = 4294967296 \<and> frame s' = 0"
    by (intro exI [of _ s']) (simp add: passes_replicate)
  from slamTask_degraded [where writes = late_writer and d = 2, OF v tick_increment_vga30 w level_pitch]
  obtain s1 where s1: "slamTask binary_platform no_video late_writer [Pass quiet_pass] vga30 level
      = Some (Inr s1)"
    by blast
  note t = slamTask_timing [OF s1 tick_increment_vga30]
  have q: "delay_requests (calls s1) = [(100, 133)]"
    using slamTask_requests [OF s1 tick_increment_vga30]
    by (simp add: passes_simps no_video_def)
  have second: "\<exists>s'. slamTask binary_platform no_video late_writer [Pass quiet_pass]
        vga30 level = Some (Inr s')
      \<and> startTime s' = 100 \<and> increment s' = 33
      \<and> delay_requests (calls s') = [(100, 133)]
      \<and> map release_tick (delay_requests (calls s')) = [233]
      \<and> startTime s' + 1 * increment s' = 133"
  proof (intro exI conjI)
    show "slamTask binary_platform no_video late_writer [Pass quiet_pass] vga30 level
        = Some (Inr s1)"
      by (rule s1)
    show "startTime s1 = 100" by (simp add: t no_video_def)
    show "increment s1 = 33" by (simp add: t)
    show "delay_requests (calls s1) = [(100, 133)]" by (rule q)
    show "map release_tick (delay_requests (calls s1)) = [233]"
      by (simp add: q release_tick_def)
    show "startTime s1 + 1 * increment s1 = 133" by (simp add: t no_video_def)
  qed
  from first second show ?thesis ..
qed

subsection \<open>Claim C2: the startup handshake\<close>

text \<open>
  Claim C2. The handshake reads the orientation sample and writes it back with pitch
  100, so that the stored sample has pitch 100. Then it polls. If no external writer ever
  stores a sample with another pitch, the polling loop does not end, and the task never
  reaches the main loop, whatever run of the main loop is asked for. If the first sample
  with another pitch is stored before read number \<open>n\<close>, the polling loop ends with that
  sample, after exactly \<open>n + 1\<close> reads of the orientation sample (one per turn, and none
  after the sample was found), and the task reaches the main loop. Whenever the polling
  loop ends, the sample it read last has a pitch other than 100.
\<close>

theorem handshake_blocks_until_written:
  "calls (handshake_mark s) =
     calls s @ [AttitudeActualGet, AttitudeActualSet ((AttitudeActual_object s)\<lparr>Pitch := 100\<rparr>)]
   \<and> AttitudeActual_object (handshake_mark s) = (AttitudeActual_object s)\<lparr>Pitch := 100\<rparr>
   \<and> ((\<forall>k v. writes k = Some v \<longrightarrow> Pitch v = 100) \<longrightarrow>
         handshake_wait writes 0 (handshake_mark s) = None
       \<and> (tick_increment pf st \<noteq> None \<longrightarrow> slamTask pf env writes hs st object = None))
   \<and> (\<forall>n v. writes n = Some v \<and> Pitch v \<noteq> 100
              \<and> (\<forall>k<n. \<forall>u. writes k = Some u \<longrightarrow> Pitch u = 100) \<longrightarrow>
         (\<exists>s'. handshake_wait writes 0 (handshake_mark s) = Some s'
            \<and> attitudeActual s' = v
            \<and> calls s' = calls (handshake_mark s) @ replicate (Suc n) AttitudeActualGet)
       \<and> (tick_increment pf st \<noteq> None \<longrightarrow> slamTask pf env writes hs st object \<noteq> None))
   \<and> (\<forall>other k t t'. handshake_wait other k t = Some t' \<longrightarrow> Pitch (attitudeActual t') \<noteq> 100)"
proof -
  have blocked: "handshake_wait writes 0 (handshake_mark s) = None
       \<and> (tick_increment pf st \<noteq> None \<longrightarrow> slamTask pf env writes hs st object = None)"
    if quiet: "\<forall>k v. writes k = Some v \<longrightarrow> Pitch v = 100"
  proof -
    have w: "handshake_wait writes 0 (handshake_mark t) = None" for t
      by (rule handshake_wait_None [OF quiet]) (simp_all add: handshake_mark_fields)
    have "slamTask pf env writes hs st object = None" if "tick_increment pf st \<noteq> None"
    proof -
      from that obtain inc where "tick_increment pf st = Some inc" by auto
      then have "tick_increment pf (settings (open_video env (task_entry st object))) = Some inc"
        by (simp add: open_video_fields task_entry_def)
      from init_timing_Inr [OF this] obtain s1 where
        "init_timing pf env (open_video env (task_entry st object)) = Inr s1"
        by blast
      then show ?thesis by (simp add: slamTask_def w)
    qed
    with w show ?thesis by blast
  qed
  have released: "(\<exists>s'. handshake_wait writes 0 (handshake_mark s) = Some s'
            \<and> attitudeActual s' = v
            \<and> calls s' = calls (handshake_mark s) @ replicate (Suc n) AttitudeActualGet)
       \<and> (tick_increment pf st \<noteq> None \<longrightarrow> slamTask pf env writes hs st object \<noteq> None)"
    if v: "writes n = Some v" "Pitch v \<noteq> 100"
      and first: "\<forall>k<n. \<forall>u. writes k = Some u \<longrightarrow> Pitch u = 100" for n v
  proof -
    have m: "Pitch (attitudeActual (handshake_mark s)) = 100"
        "Pitch (AttitudeActual_object (handshake_mark s)) = 100"
      by (simp_all add: handshake_mark_fields)
    have "writes (0 + n) = Some v" "\<forall>j<n. \<forall>u. writes (0 + j) = Some u \<longrightarrow> Pitch u = 100"
      using v(1) first by simp_all
    from handshake_wait_first [OF m this(1) v(2) this(2)]
    have "\<exists>s'. handshake_wait writes 0 (handshake_mark s) = Some s'
            \<and> attitudeActual s' = v
            \<and> calls s' = calls (handshake_mark s) @ replicate (Suc n) AttitudeActualGet"
      by blast
    moreover have "slamTask pf env writes hs st object \<noteq> None" if "tick_increment pf st \<noteq> None"
    proof -
      from that obtain inc where "tick_increment pf st = Some inc" by auto
      from slamTask_reaches_loop [where writes = writes and d = n, OF this v] show ?thesis .
    qed
    ultimately show ?thesis by blast
  qed
  have mark: "calls (handshake_mark s) =
     calls s @ [AttitudeActualGet, AttitudeActualSet ((AttitudeActual_object s)\<lparr>Pitch := 100\<rparr>)]"
    "AttitudeActual_object (handshake_mark s) = (AttitudeActual_object s)\<lparr>Pitch := 100\<rparr>"
    by (simp_all add: handshake_mark_fields)
  have exit: "\<forall>other k t t'. handshake_wait other k t = Some t' \<longrightarrow> Pitch (attitudeActual t') \<noteq> 100"
    using handshake_wait_exit by blast
  from mark blocked released exit show ?thesis
    by blast
qed

text \<open>
  Without a writer the wait does not end and the task does not reach its main loop; with
  a writer that stores a level sample before read number 2, the wait ends with that
  sample after three reads, and the task reaches its main loop.
\<close>

theorem handshake_blocks_until_written_witness:
  "handshake_wait no_writer 0 (handshake_mark (task_entry vga30 level)) = None
   \<and> slamTask binary_platform camera no_writer [Pass frame_pass] vga30 level = None
   \<and> (\<exists>s'. handshake_wait late_writer 0 (handshake_mark (task_entry vga30 level)) = Some s'
         \<and> attitudeActual s' = level
         \<and> calls s' = [AttitudeActualGet, AttitudeActualSet (level\<lparr>Pitch := 100\<rparr>),
                        AttitudeActualGet, AttitudeActualGet, AttitudeActualGet])
   \<and> slamTask binary_platform no_video late_writer [Pass quiet_pass] vga30 level \<noteq> None"
proof -
  note quiet = handshake_blocks_until_written [where s = "task_entry vga30 level"
      and writes = no_writer and pf = binary_platform and st = vga30 and env = camera
      and hs = "[Pass frame_pass]" and object = level]
  note late = handshake_blocks_until_written [where s = "task_entry vga30 level"
      and writes = late_writer and pf = binary_platform and st = vga30 and env = no_video
      and hs = "[Pass quiet_pass]" and object = level]
  have a: "handshake_wait no_writer 0 (handshake_mark (task_entry vga30 level)) = None
     \<and> slamTask binary_platform camera no_writer [Pass frame_pass] vga30 level = None"
    using quiet tick_increment_vga30 by (simp add: no_writer_def)
  have h: "late_writer 2 = Some level \<and> Pitch level \<noteq> 100
     \<and> (\<forall>k<2. \<forall>u. late_writer k = Some u \<longrightarrow> Pitch u = 100)"
    by (simp add: late_writer_def level_def)
  from late h have b: "(\<exists>s'. handshake_wait late_writer 0 (handshake_mark (task_entry vga30 level)) = Some s'
            \<and> attitudeActual s' = level
            \<and> calls s' = calls (handshake_mark (task_entry vga30 level))
                 @ replicate (Suc 2) AttitudeActualGet)
       \<and> (tick_increment binary_platform vga30 \<noteq> None \<longrightarrow>
            slamTask binary_platform no_video late_writer [Pass quiet_pass] vga30 level \<noteq> None)"
    by blast
  have c: "calls (handshake_mark (task_entry vga30 level)) @ replicate (Suc 2) AttitudeActualGet
      = [AttitudeActualGet, AttitudeActualSet (level\<lparr>Pitch := 100\<rparr>),
         AttitudeActualGet, AttitudeActualGet, AttitudeActualGet]"
    by (simp add: handshake_mark_fields task_entry_def numeral_2_eq_2)
  from a b show ?thesis
    unfolding c using tick_increment_vga30 by simp
qed

subsection \<open>Claim C3: the tick increment\<close>

text \<open>
  Claim C3, as amended. At 1000 ticks per second (a tick period of 1 ms), for every
  frame rate other than 0 the increment is \<open>1000 / frame_rate\<close> rounded down to an
  integer (the conversion to the tick type truncates), whatever the intermediate rounding
  of the platform; for a frame rate of 30 it is 33 ticks. For a frame rate of 0 it is
  undefined. The increment of a task that has reached any state of its main loop is this
  value, computed from the settings at the start: it is not recomputed.
\<close>

theorem tick_increment_truncates:
  assumes "ieee_like pf" and "portTICK_RATE_MS pf = 1"
  shows "(FrameRate st \<noteq> 0 \<longrightarrow>
            tick_increment pf st = Some (of_nat (nat \<lfloor>1000 / real (unat (FrameRate st))\<rfloor>)))
     \<and> (FrameRate st = 30 \<longrightarrow> tick_increment pf st = Some 33)
     \<and> (FrameRate st = 0 \<longrightarrow> tick_increment pf st = None)
     \<and> (slamTask pf env writes hs st object = Some (Inr s') \<longrightarrow>
            increment s' = of_nat (nat \<lfloor>1000 / real (unat (FrameRate st))\<rfloor>))"
proof -
  have fl: "nat \<lfloor>1000 / real (unat (FrameRate st))\<rfloor> = 1000 div unat (FrameRate st)"
    using floor_divide_of_nat_eq [of 1000 "unat (FrameRate st)", where ?'a = real] by simp
  have a: "tick_increment pf st = Some (of_nat (nat \<lfloor>1000 / real (unat (FrameRate st))\<rfloor>))"
    if "FrameRate st \<noteq> 0"
    unfolding fl using tick_increment_floor [OF assms that] .
  have b: "tick_increment pf st = Some 33" if "FrameRate st = 30"
    using tick_increment_floor [OF assms, of st] that by simp
  have c: "tick_increment pf st = None" if "FrameRate st = 0"
    using that by (simp add: tick_increment_def)
  have d: "increment s' = of_nat (nat \<lfloor>1000 / real (unat (FrameRate st))\<rfloor>)"
    if r: "slamTask pf env writes hs st object = Some (Inr s')"
  proof -
    from slamTask_Inr_increment [OF r] obtain inc where inc: "tick_increment pf st = Some inc"
      by blast
    with c have "FrameRate st \<noteq> 0" by auto
    from a [OF this] inc have i: "inc = of_nat (nat \<lfloor>1000 / real (unat (FrameRate st))\<rfloor>)"
      by simp
    from slamTask_loop_entry [OF r inc] obtain s0 where
      "Inr s' = main_loop pf hs s0" "increment s0 = inc"
      by metis
    with main_loop_timing [of pf hs s0 s'] show ?thesis
      by (simp add: i)
  qed
  from a b c d show ?thesis by blast
qed

theorem tick_increment_truncates_witness:
  "tick_increment binary_platform vga30 = Some 33
   \<and> tick_increment binary_platform (vga30\<lparr>FrameRate := 60\<rparr>) = Some 16
   \<and> tick_increment binary_platform (vga30\<lparr>FrameRate := 0\<rparr>) = None"
proof -
  note t = binary_tick
  show ?thesis
    using tick_increment_truncates [OF ieee_like_binary t, of vga30]
      tick_increment_truncates [OF ieee_like_binary t, of "vga30\<lparr>FrameRate := 60\<rparr>"]
      tick_increment_truncates [OF ieee_like_binary t, of "vga30\<lparr>FrameRate := 0\<rparr>"]
    by (simp add: vga30_def)
qed

text \<open>
  Claim C3 as stated fails for a frame rate of 64: \<open>1000 / 64 = 15.625\<close> (a binary
  fraction, so that no step of the computation rounds), the increment is 15, and
  \<open>round (15.625) = 16\<close>. By \<open>tick_increment_floor\<close> the increment is 15 on every
  platform that meets the assumptions.
\<close>

theorem tick_increment_round_counterexample:
  "tick_increment binary_platform (vga30\<lparr>FrameRate := 64\<rparr>) = Some 15
   \<and> round (1000 / 64 :: real) = 16"
  using tick_increment_floor [OF ieee_like_binary binary_tick, of "vga30\<lparr>FrameRate := 64\<rparr>"]
  by (simp add: vga30_def round_def)

subsection \<open>Claim C4: the centre of the overlay\<close>

text \<open>
  Claim C4, as amended. For every pitch in \<open>[-60, 60]\<close> and all frame dimensions the
  centre is defined; its \<open>x\<close> is the frame width halved as an integer, and its \<open>y\<close> is
  the sum \<open>frame_height div 2 + pitch * frame_height / 60\<close> as computed in floating
  point, a value \<open>v\<close> within 1/100 of the exact sum, truncated toward zero to an
  \<^verbatim>\<open>int\<close> (rounded down when \<open>v\<close> is not negative, rounded up when it is), since
  \<^verbatim>\<open>cvPoint\<close> takes integer coordinates. So \<open>y\<close> is within 1.01 of the exact sum.
\<close>

theorem horizon_center_truncated:
  assumes "ieee_like pf" and "- 60 \<le> Pitch att" and "Pitch att \<le> 60"
  shows "\<exists>v. \<bar>v - (real (unat (FrameDimensions_Y st) div 2)
                  + Pitch att * real (unat (FrameDimensions_Y st)) / 60)\<bar> \<le> 1 / 100
     \<and> horizon_center pf st att =
         Some (int (unat (FrameDimensions_X st) div 2), if 0 \<le> v then \<lfloor>v\<rfloor> else \<lceil>v\<rceil>)
     \<and> \<bar>real_of_int (if 0 \<le> v then \<lfloor>v\<rfloor> else \<lceil>v\<rceil>)
          - (real (unat (FrameDimensions_Y st) div 2)
             + Pitch att * real (unat (FrameDimensions_Y st)) / 60)\<bar> < 1 + 1 / 100"
proof -
  define E where "E = real (unat (FrameDimensions_Y st) div 2)
             + Pitch att * real (unat (FrameDimensions_Y st)) / 60"
  have "\<bar>Pitch att\<bar> \<le> 60" using assms(2,3) by simp
  from horizon_center_value [OF assms(1) this, of st] obtain v where
    c: "horizon_center pf st att = Some (int (unat (FrameDimensions_X st) div 2), c_trunc v)"
    and e: "\<bar>v - E\<bar> \<le> 1 / 100"
    unfolding E_def by blast
  have tr: "\<bar>real_of_int (c_trunc v) - v\<bar> < 1" by (rule c_trunc_error)
  have "\<bar>real_of_int (c_trunc v) - E\<bar> < 1 + 1 / 100"
    using tr e by linarith
  with c e show ?thesis
    unfolding c_trunc_def E_def by blast
qed

text \<open>
  For 640 by 480: at a pitch of 1/16 the exact sum is 240.5 and \<open>y\<close> is 240; at a pitch
  of \<open>-481/16\<close> the exact sum is \<open>-0.5\<close> and \<open>y\<close> is 0, not \<open>-1\<close>.
\<close>

theorem horizon_center_truncated_witness:
  "horizon_center binary_platform vga30 nose_up = Some (320, 240)
   \<and> horizon_center binary_platform vga30 nose_down = Some (320, 0)"
proof -
  have up: "horizon_center binary_platform vga30 nose_up = Some (320, 240)"
  proof -
    have p: "- 60 \<le> Pitch nose_up" "Pitch nose_up \<le> 60"
      by (simp_all add: nose_up_def)
    from horizon_center_truncated [OF ieee_like_binary p, of vga30] obtain v where
      e: "\<bar>v - (real (unat (FrameDimensions_Y vga30) div 2)
                  + Pitch nose_up * real (unat (FrameDimensions_Y vga30)) / 60)\<bar> \<le> 1 / 100"
      and c: "horizon_center binary_platform vga30 nose_up =
         Some (int (unat (FrameDimensions_X vga30) div 2), if 0 \<le> v then \<lfloor>v\<rfloor> else \<lceil>v\<rceil>)"
      by blast
    have E: "real (unat (FrameDimensions_Y vga30) div 2)
            + Pitch nose_up * real (unat (FrameDimensions_Y vga30)) / 60 = 481 / 2"
      by (simp add: vga30_def nose_up_def)
    have "\<bar>v - 481 / 2\<bar> \<le> 1 / 100"
      using e unfolding E .
    then have v: "240 \<le> v" "v < 241"
      by linarith+
    then have "real_of_int 240 \<le> v" "v < real_of_int 240 + 1"
      by simp_all
    then have "\<lfloor>v\<rfloor> = 240"
      by (rule floor_unique)
    moreover from v have "0 \<le> v" by simp
    ultimately show ?thesis
      using c by (simp add: vga30_def)
  qed
  have down: "horizon_center binary_platform vga30 nose_down = Some (320, 0)"
  proof -
    have p: "- 60 \<le> Pitch nose_down" "Pitch nose_down \<le> 60"
      by (simp_all add: nose_down_def)
    from horizon_center_truncated [OF ieee_like_binary p, of vga30] obtain v where
      e: "\<bar>v - (real (unat (FrameDimensions_Y vga30) div 2)
                  + Pitch nose_down * real (unat (FrameDimensions_Y vga30)) / 60)\<bar> \<le> 1 / 100"
      and c: "horizon_center binary_platform vga30 nose_down =
         Some (int (unat (FrameDimensions_X vga30) div 2), if 0 \<le> v then \<lfloor>v\<rfloor> else \<lceil>v\<rceil>)"
      by blast
    have E: "real (unat (FrameDimensions_Y vga30) div 2)
            + Pitch nose_down * real (unat (FrameDimensions_Y vga30)) / 60 = - (1 / 2)"
      by (simp add: vga30_def nose_down_def)
    have "\<bar>v - - (1 / 2)\<bar> \<le> 1 / 100"
      using e unfolding E .
    then have v: "- 1 < v" "v < 0"
      by linarith+
    then have "real_of_int 0 - 1 < v" "v \<le> real_of_int 0"
      by simp_all
    then have "\<lceil>v\<rceil> = 0"
      by (rule ceiling_unique)
    with v(2) show ?thesis
      using c by (simp add: vga30_def)
  qed
  from up down show ?thesis ..
qed

text \<open>
  Claim C4 as stated fails for a frame of 640 by 480 and a pitch of 1/16 degree: the
  offset \<open>pitch * 480 / 60\<close> is one half, every intermediate value is a binary fraction
  (no step rounds), and the centre is (320, 240), not (320, 240.5). By
  \<open>horizon_center_nose_up\<close> this is the centre on every platform that meets the
  assumptions.
\<close>

theorem horizon_center_exact_counterexample:
  "horizon_center binary_platform vga30 nose_up = Some (320, 240)
   \<and> real_of_int 240 \<noteq> 480 / 2 + Pitch nose_up * 480 / 60"
  using horizon_center_nose_up [OF ieee_like_binary] by (simp add: nose_up_def)

subsection \<open>Claim C5: the end points mirror each other\<close>

text \<open>
  Claim C5, as amended. For every roll in \<open>[0, 360)\<close>, whenever the line is defined (it
  is for a pitch in \<open>[-60, 60]\<close>), \<open>right - center\<close> and \<open>center - left\<close> are the same
  integer vector, so that the end points are mirror images of each other through the
  centre; the length of that vector is within 1.5 of \<open>min (width, height) / 3\<close>, its
  coordinates being truncated to integers.
\<close>

theorem horizon_line_mirrored:
  assumes "ieee_like pf" and "0 \<le> Roll att" and "Roll att < 360"
  shows "(\<bar>Pitch att\<bar> \<le> 60 \<longrightarrow> horizon_line pf st att \<noteq> None)
     \<and> (\<forall>left right. horizon_line pf st att = Some (left, right) \<longrightarrow>
          (\<exists>center. horizon_center pf st att = Some center
             \<and> fst right - fst center = fst center - fst left
             \<and> snd right - snd center = snd center - snd left
             \<and> \<bar>sqrt ((real_of_int (fst right - fst center))\<^sup>2
                       + (real_of_int (snd right - snd center))\<^sup>2)
                 - real (min (unat (FrameDimensions_X st)) (unat (FrameDimensions_Y st))) / 3\<bar>
                 < 3 / 2))"
proof -
  have r: "\<bar>Roll att\<bar> \<le> 360" using assms(2,3) by simp
  have "horizon_line pf st att \<noteq> None" if "\<bar>Pitch att\<bar> \<le> 60"
    using horizon_line_defined [OF assms(1) that r, of st] by auto
  moreover have "\<exists>center. horizon_center pf st att = Some center
             \<and> fst right - fst center = fst center - fst left
             \<and> snd right - snd center = snd center - snd left
             \<and> \<bar>sqrt ((real_of_int (fst right - fst center))\<^sup>2
                       + (real_of_int (snd right - snd center))\<^sup>2)
                 - real (min (unat (FrameDimensions_X st)) (unat (FrameDimensions_Y st))) / 3\<bar>
                 < 3 / 2"
    if l: "horizon_line pf st att = Some (left, right)" for left right
  proof -
    from horizon_line_parts [OF l] obtain c off where
      c: "horizon_center pf st att = Some c" and off: "horizon_offset pf st att = Some off"
      and lr: "left = (fst c - fst off, snd c - snd off)" "right = (fst off + fst c, snd off + snd c)"
      by blast
    from horizon_offset_close [OF assms(1) r, of st] off obtain a where
      "\<bar>real_of_int (fst off)
         - real (min (unat (FrameDimensions_X st)) (unat (FrameDimensions_Y st))) * cos a / 3\<bar>
         < 1 + 1 / 1000"
      "\<bar>real_of_int (snd off)
         + real (min (unat (FrameDimensions_X st)) (unat (FrameDimensions_Y st))) * sin a / 3\<bar>
         < 1 + 1 / 1000"
      by auto
    then have "\<bar>sqrt ((real_of_int (fst off))\<^sup>2 + (real_of_int (snd off))\<^sup>2)
        - real (min (unat (FrameDimensions_X st)) (unat (FrameDimensions_Y st))) / 3\<bar> < 3 / 2"
      by (rule offset_magnitude) simp
    then show ?thesis
      using c by (simp add: lr)
  qed
  ultimately show ?thesis by blast
qed

theorem horizon_line_mirrored_witness:
  "horizon_line binary_platform square100 level = Some ((17, 50), (83, 50))
   \<and> horizon_center binary_platform square100 level = Some (50, 50)
   \<and> \<bar>sqrt ((real_of_int (83 - 50))\<^sup>2 + (real_of_int (50 - 50))\<^sup>2) - real 100 / 3\<bar> < 3 / 2"
proof -
  have r: "0 \<le> Roll level" "Roll level < 360"
    by (simp_all add: level_def)
  note v = horizon_line_square_level [OF ieee_like_binary]
  from horizon_line_mirrored [OF ieee_like_binary r, of square100] v
  have "\<bar>sqrt ((real_of_int (83 - 50))\<^sup>2 + (real_of_int (50 - 50))\<^sup>2)
         - real (min (unat (FrameDimensions_X square100)) (unat (FrameDimensions_Y square100))) / 3\<bar>
         < 3 / 2"
    by auto
  then show ?thesis
    using v by (simp add: square100_def)
qed

text \<open>
  Claim C5 as stated fails for a frame of 100 by 100 and a roll of 0: the centre is
  (50, 50), the end points are (17, 50) and (83, 50), and the distance of 33 from the
  centre is not \<open>100 / 3\<close>. By \<open>horizon_line_square_level\<close> these are the end points on
  every platform that meets the assumptions.
\<close>

theorem horizon_line_magnitude_counterexample:
  "horizon_line binary_platform square100 level = Some ((17, 50), (83, 50))
   \<and> horizon_center binary_platform square100 level = Some (50, 50)
   \<and> sqrt ((real_of_int (83 - 50))\<^sup>2 + (real_of_int (50 - 50))\<^sup>2) \<noteq> real 100 / 3"
  using horizon_line_square_level [OF ieee_like_binary] by simp

subsection \<open>Claim C6: roll 0 and roll 90\<close>

text \<open>
  Claim C6. For all frame dimensions, whenever the line is defined (it is for a pitch in
  \<open>[-60, 60]\<close>): at a roll of 0 the two end points have the same \<open>y\<close>, and at a roll of
  90 they have the same \<open>x\<close>. At 90 degrees the computed cosine is not zero, but its
  product with a third of the smaller frame dimension is less than 1 in magnitude and
  truncates to 0.
\<close>

theorem horizon_line_level_and_on_edge:
  assumes "ieee_like pf"
  shows "(\<forall>left right. Roll att = 0 \<and> horizon_line pf st att = Some (left, right)
            \<longrightarrow> snd left = snd right)
     \<and> (\<forall>left right. Roll att = 90 \<and> horizon_line pf st att = Some (left, right)
            \<longrightarrow> fst left = fst right)
     \<and> ((Roll att = 0 \<or> Roll att = 90) \<and> \<bar>Pitch att\<bar> \<le> 60 \<longrightarrow> horizon_line pf st att \<noteq> None)"
proof -
  have "snd left = snd right"
    if "Roll att = 0" and l: "horizon_line pf st att = Some (left, right)" for left right
  proof -
    from horizon_line_parts [OF l] obtain c off where
      off: "horizon_offset pf st att = Some off"
      and lr: "left = (fst c - fst off, snd c - snd off)" "right = (fst off + fst c, snd off + snd c)"
      by blast
    from horizon_offset_level [OF assms that(1) off] show ?thesis
      by (simp add: lr)
  qed
  moreover have "fst left = fst right"
    if "Roll att = 90" and l: "horizon_line pf st att = Some (left, right)" for left right
  proof -
    from horizon_line_parts [OF l] obtain c off where
      off: "horizon_offset pf st att = Some off"
      and lr: "left = (fst c - fst off, snd c - snd off)" "right = (fst off + fst c, snd off + snd c)"
      by blast
    from horizon_offset_on_edge [OF assms that(1) off] show ?thesis
      by (simp add: lr)
  qed
  moreover have "horizon_line pf st att \<noteq> None"
    if "Roll att = 0 \<or> Roll att = 90" and p: "\<bar>Pitch att\<bar> \<le> 60"
  proof -
    from that(1) have "\<bar>Roll att\<bar> \<le> 360" by auto
    from horizon_line_defined [OF assms p this, of st] show ?thesis by auto
  qed
  ultimately show ?thesis by blast
qed

theorem horizon_line_level_and_on_edge_witness:
  "horizon_line binary_platform vga30 level = Some ((160, 240), (480, 240))
   \<and> (\<exists>left right. horizon_line binary_platform vga30 on_edge = Some (left, right)
         \<and> fst left = fst right)"
proof -
  note t = horizon_line_level_and_on_edge [OF ieee_like_binary, of on_edge vga30]
  have "horizon_line binary_platform vga30 on_edge \<noteq> None"
    using t by (simp add: on_edge_def)
  then obtain left right where l: "horizon_line binary_platform vga30 on_edge = Some (left, right)"
    by auto
  moreover have "Roll on_edge = 90"
    by (simp add: on_edge_def)
  ultimately have "fst left = fst right"
    using t by blast
  with l show ?thesis
    using horizon_line_level(1) [OF ieee_like_binary] by blast
qed

subsection \<open>Claim C8: no video source\<close>

text \<open>
  Claim C8. If \<^verbatim>\<open>cvCaptureFromFile\<close> returns a null pointer (and the start is defined and
  the handshake ends), then every finite run of the main loop, of any length and with any
  settings changes, ends in a state: the loop neither stops nor runs into undefined
  behaviour. In that state the frame counter has advanced by the number of passes, there
  is still no video source, no current and no last frame; over the whole task no frame
  was grabbed or retrieved, no image cloned, no line drawn and no image shown; and
  \<^verbatim>\<open>opencvslam_run\<close> was called once per pass, each time with the input whose \<open>x\<close> is 0.
\<close>

theorem slamTask_without_video:
  assumes "video_open env = None"
    and "tick_increment pf st = Some inc"
    and "slamTask pf env writes hs st object = Some r"
  shows "\<exists>s'. r = Inr s'
     \<and> frame s' = of_nat (passes hs)
     \<and> VideoSource s' = None \<and> currentFrame s' = None \<and> lastFrame s' = None
     \<and> filter acquires_or_displays (calls s') = []
     \<and> fusion_inputs (calls s') = replicate (passes hs) \<lparr>input_x = 0\<rparr>"
proof -
  from slamTask_loop_entry [OF assms(3,2)] obtain s0 where
    r: "r = main_loop pf hs s0" and f0: "frame s0 = 0" and
    d: "VideoSource s0 = video_open env"
       "currentFrame s0 = (if video_open env \<noteq> None then first_frame env else None)"
       "lastFrame s0 = currentFrame s0" and
    c: "filter acquires_or_displays (calls s0) =
         (if video_open env \<noteq> None
          then [cvGrabFrame, cvRetrieveFrame]
               @ (case first_frame env of None \<Rightarrow> [] | Some c \<Rightarrow> [cvCloneImage c])
          else [])"
       "fusion_inputs (calls s0) = []"
    by metis
  have "degraded s0"
    using d assms(1) by (simp add: degraded_def)
  from main_loop_degraded [OF this, of pf hs] obtain s' where
    s': "main_loop pf hs s0 = Inr s'" "degraded s'"
        "filter acquires_or_displays (calls s') = filter acquires_or_displays (calls s0)"
        "fusion_inputs (calls s') = fusion_inputs (calls s0) @ replicate (passes hs) \<lparr>input_x = 0\<rparr>"
    by blast
  from main_loop_timing [OF s'(1)] f0 have "frame s' = of_nat (passes hs)"
    by simp
  with s' c r assms(1) show ?thesis
    by (simp add: degraded_def)
qed

theorem slamTask_without_video_witness:
  "\<exists>s'. slamTask binary_platform no_video (\<lambda>k. Some level)
            [Pass quiet_pass, Settings_changed vga30, Pass quiet_pass, Pass quiet_pass]
            vga30 level = Some (Inr s')
      \<and> frame s' = 3
      \<and> filter acquires_or_displays (calls s') = []
      \<and> fusion_inputs (calls s') = [\<lparr>input_x = 0\<rparr>, \<lparr>input_x = 0\<rparr>, \<lparr>input_x = 0\<rparr>]"
proof -
  let ?hs = "[Pass quiet_pass, Settings_changed vga30, Pass quiet_pass, Pass quiet_pass]"
  from slamTask_degraded [of no_video binary_platform vga30 33 "\<lambda>k. Some level" 0 level]
  obtain s0 where s0: "slamTask binary_platform no_video (\<lambda>k. Some level) ?hs vga30 level
      = Some (Inr s0)"
    using tick_increment_vga30 level_pitch by (auto simp: no_video_def)
  have nv: "video_open no_video = None"
    by (simp add: no_video_def)
  from slamTask_without_video [OF nv tick_increment_vga30 s0]
  have "frame s0 = 3
      \<and> filter acquires_or_displays (calls s0) = []
      \<and> fusion_inputs (calls s0) = [\<lparr>input_x = 0\<rparr>, \<lparr>input_x = 0\<rparr>, \<lparr>input_x = 0\<rparr>]"
    by (simp add: passes_simps numeral_3_eq_3)
  with s0 show ?thesis by (intro exI [of _ s0]) simp
qed

subsection \<open>Claim C9: a settings change leaves the increment alone\<close>

text \<open>
  Claim C9. A settings-change notification that arrives in a running loop (after the
  passes and notifications \<open>hs1\<close>, before \<open>hs2\<close>) runs the callback, which replaces the
  whole settings snapshot by the settings object; the snapshot at the end is the one read
  then, unless a later notification of \<open>hs2\<close> replaces it. The increment and the start
  tick at the end are those of the beginning, and every wake tick of the run, before and
  after the notification, is computed from them.
\<close>

theorem settings_change_keeps_increment:
  assumes "main_loop pf (hs1 @ Settings_changed object # hs2) s = Inr s'"
  shows "SettingsUpdatedCb object s = s\<lparr>settings := object\<rparr>
     \<and> settings s' = settings_after hs2 object
     \<and> increment s' = increment s
     \<and> startTime s' = startTime s
     \<and> wake_ticks (calls s') =
         wake_ticks (calls s)
         @ map (\<lambda>N. startTime s + (frame s + of_nat N) * increment s)
             [1..<Suc (passes hs1 + passes hs2)]"
  using main_loop_timing [OF assms] main_loop_settings [OF assms]
  by (simp add: passes_simps settings_after_append SettingsUpdatedCb_def)

theorem settings_change_keeps_increment_witness:
  "\<exists>s'. main_loop binary_platform
            ([Pass quiet_pass] @ Settings_changed (vga30\<lparr>FrameRate := 60\<rparr>) # [Pass quiet_pass])
            idle_state = Inr s'
      \<and> FrameRate (settings s') = 60
      \<and> increment s' = 33
      \<and> wake_ticks (calls s') = [133, 166]"
proof -
  let ?hs = "[Pass quiet_pass] @ Settings_changed (vga30\<lparr>FrameRate := 60\<rparr>) # [Pass quiet_pass]"
  have "degraded idle_state"
    by (simp add: degraded_def idle_state_def task_entry_def)
  from main_loop_degraded [OF this, of binary_platform ?hs]
  obtain s' where s': "main_loop binary_platform ?hs idle_state = Inr s'"
    by blast
  have two: "[1..<Suc (Suc (Suc 0))] = [1, 2]"
    by (simp add: upt_rec)
  from settings_change_keeps_increment [OF s']
  have "FrameRate (settings s') = 60 \<and> increment s' = 33 \<and> wake_ticks (calls s') = [133, 166]"
    by (simp add: passes_simps idle_state_def task_entry_def two wake_ticks_simps)
  with s' show ?thesis by (intro exI [of _ s']) simp
qed

subsection \<open>Claim C10: the overlay follows the settings snapshot\<close>

text \<open>
  Claim C10. When a settings change is delivered through the callback and the next pass
  has a current frame, the line drawn in that pass is the horizon line computed from the
  new settings object (and the orientation sample read in that pass), not from the
  settings with which the loop was started. The tick increment is unchanged by this, and
  the pass sets no capture property: the dimensions given to the video source are those
  set at the start of the task.
\<close>

theorem overlay_uses_current_settings:
  assumes "main_loop pf [Settings_changed object, Pass env] s = Inr s'"
    and "currentFrame s' \<noteq> None"
  shows "\<exists>line. horizon_line pf object (attitudeActual s') = Some line
     \<and> drawn_lines (calls s') = drawn_lines (calls s) @ [line]
     \<and> increment s' = increment s
     \<and> capture_properties (calls s') = capture_properties (calls s)"
proof -
  from assms(1) have b: "loop_body pf env (SettingsUpdatedCb object s) = Inr s'"
    by (simp split: sum.splits)
  note o = loop_body_overlay [OF b]
  from o(5) [OF assms(2)] obtain line where
    line: "horizon_line pf object (attitudeActual s') = Some line"
    by (auto simp: SettingsUpdatedCb_fields)
  from assms(2) obtain c where c: "currentFrame s' = Some c"
    by auto
  have "drawn_lines (calls s') = drawn_lines (calls s) @ [line]"
    using o(4) line c by (simp add: SettingsUpdatedCb_fields)
  moreover have "increment s' = increment s"
    using loop_body_fields(3) [OF b] by (simp add: SettingsUpdatedCb_fields)
  moreover have "capture_properties (calls s') = capture_properties (calls s)"
    using o(3) by (simp add: SettingsUpdatedCb_fields)
  ultimately show ?thesis using line by blast
qed

theorem overlay_uses_current_settings_witness:
  "\<exists>s'. main_loop binary_platform [Settings_changed qvga30, Pass frame_pass] streaming_state = Inr s'
     \<and> settings streaming_state = vga30
     \<and> horizon_line binary_platform vga30 level = Some ((160, 240), (480, 240))
     \<and> drawn_lines (calls s') = [((80, 120), (240, 120))]
     \<and> increment s' = 33
     \<and> capture_properties (calls s') = []"
proof -
  have "horizon_line binary_platform (settings (SettingsUpdatedCb qvga30 streaming_state))
             (case attitude_written frame_pass of
                None \<Rightarrow> AttitudeActual_object (SettingsUpdatedCb qvga30 streaming_state)
              | Some v \<Rightarrow> v) = Some ((80, 120), (240, 120))"
    by (simp add: SettingsUpdatedCb_fields frame_pass_def streaming_state_def task_entry_def
        horizon_line_level(2) [OF ieee_like_binary])
  from loop_body_defined [OF this] obtain s' where
    s': "main_loop binary_platform [Settings_changed qvga30, Pass frame_pass] streaming_state = Inr s'"
    by auto
  then have b: "loop_body binary_platform frame_pass (SettingsUpdatedCb qvga30 streaming_state) = Inr s'"
    by (simp split: sum.splits)
  have cf: "currentFrame s' \<noteq> None"
    using loop_body_overlay(2) [OF b]
    by (simp add: SettingsUpdatedCb_fields frame_pass_def streaming_state_def)
  have att: "attitudeActual s' = level"
    using loop_body_overlay(1) [OF b]
    by (simp add: SettingsUpdatedCb_fields frame_pass_def streaming_state_def task_entry_def)
  from overlay_uses_current_settings [OF s' cf]
  have "drawn_lines (calls s') = [((80, 120), (240, 120))] \<and> increment s' = 33
      \<and> capture_properties (calls s') = []"
    by (simp add: att horizon_line_level(2) [OF ieee_like_binary] streaming_state_def task_entry_def
        drawn_lines_simps capture_properties_simps)
  with s' show ?thesis
    by (intro exI [of _ s']) (simp add: horizon_line_level(1) [OF ieee_like_binary] streaming_state_def task_entry_def)
qed

end
